theory Spec2Isabelle
  imports Main "HOL-Library.AList" "HOL-Library.Char_ord" "HOL-Library.List_Lexorder"
begin

section \<open>The new-job capabilities field service (field_service.ts)\<close>

text \<open>
  A shallow embedding of \<^verbatim>\<open>x-pack/legacy/plugins/ml/server/models/job_service/new_job_caps/field_service.ts\<close>.

  \<^item> JavaScript objects used as dictionaries (the \<^verbatim>\<open>fields\<close> object of a field
    capability response, the type variants of one field, \<^verbatim>\<open>RollupFields\<close>) are
    association lists in the order of \<^verbatim>\<open>Object.keys\<close>. Properties inherited from
    \<^verbatim>\<open>Object.prototype\<close> are outside the model.
  \<^item> The field and aggregation objects are shared and mutated: \<^verbatim>\<open>mix\<close> pushes a
    reference to the aggregation onto the field and a reference to the field onto the
    aggregation. The two arrays \<^verbatim>\<open>fields\<close> and \<^verbatim>\<open>aggs\<close> of
    \<^verbatim>\<open>combineFieldsAndAggs\<close> are the store, and a reference to an object is its position
    in its array. The sub-arrays \<^verbatim>\<open>textAndKeywordFields\<close> and \<^verbatim>\<open>numericalFields\<close>
    are lists of such references.
  \<^item> The asynchronous calls to the collaborators are results of type \<open>error + 'a\<close>; a
    rejected promise is \<open>Inl\<close> and is passed on unchanged. The calls made are logged, so
    that a statement can say which collaborator was asked.
\<close>

subsection \<open>Constants of modules outside the sources\<close>

text \<open>
  Modelled from the spec: the string constants of \<^verbatim>\<open>common/constants/field_types\<close>,
  which is not among the sources. The spec lists the supported kinds as date, keyword,
  text, double, integer, float, long, byte, half_float, scaled_float, short.
\<close>

definition ES_FIELD_TYPES_DATE :: string where "ES_FIELD_TYPES_DATE = ''date''"
definition ES_FIELD_TYPES_KEYWORD :: string where "ES_FIELD_TYPES_KEYWORD = ''keyword''"
definition ES_FIELD_TYPES_TEXT :: string where "ES_FIELD_TYPES_TEXT = ''text''"
definition ES_FIELD_TYPES_DOUBLE :: string where "ES_FIELD_TYPES_DOUBLE = ''double''"
definition ES_FIELD_TYPES_INTEGER :: string where "ES_FIELD_TYPES_INTEGER = ''integer''"
definition ES_FIELD_TYPES_FLOAT :: string where "ES_FIELD_TYPES_FLOAT = ''float''"
definition ES_FIELD_TYPES_LONG :: string where "ES_FIELD_TYPES_LONG = ''long''"
definition ES_FIELD_TYPES_BYTE :: string where "ES_FIELD_TYPES_BYTE = ''byte''"
definition ES_FIELD_TYPES_HALF_FLOAT :: string where "ES_FIELD_TYPES_HALF_FLOAT = ''half_float''"
definition ES_FIELD_TYPES_SCALED_FLOAT :: string where
  "ES_FIELD_TYPES_SCALED_FLOAT = ''scaled_float''"
definition ES_FIELD_TYPES_SHORT :: string where "ES_FIELD_TYPES_SHORT = ''short''"

text \<open>
  Modelled from the spec: the DSL names of \<^verbatim>\<open>common/constants/aggregation_types\<close> that
  the service compares with, and the tag of the metric category of
  \<^verbatim>\<open>common/types/fields\<close>. Neither module is among the sources.
\<close>

definition ES_AGGREGATION_CARDINALITY :: string where
  "ES_AGGREGATION_CARDINALITY = ''cardinality''"
definition ES_AGGREGATION_COUNT :: string where "ES_AGGREGATION_COUNT = ''count''"
definition METRIC_AGG_TYPE :: string where "METRIC_AGG_TYPE = ''metrics''"

subsection \<open>Data model\<close>

type_synonym FieldId = string

text \<open>A reference to a \<open>Field\<close> or to an \<open>Aggregation\<close>: its position in the array
  \<^verbatim>\<open>fields\<close> or \<^verbatim>\<open>aggs\<close> of \<^verbatim>\<open>combineFieldsAndAggs\<close>.\<close>

type_synonym FieldRef = nat
type_synonym AggRef = nat

text \<open>\<^verbatim>\<open>Field\<close>; the optional property \<^verbatim>\<open>aggs\<close> is \<open>None\<close> when undefined.\<close>

record Field =
  field_id :: FieldId
  field_name :: string
  field_type :: string
  field_aggregatable :: bool
  field_aggs :: "AggRef list option"

text \<open>
  Modelled from the spec: \<^verbatim>\<open>Aggregation\<close> of \<^verbatim>\<open>common/types/fields\<close>, with the
  properties the service reads: the DSL name, the category tag and the list of
  compatible fields (\<open>None\<close> when undefined).
\<close>

record Aggregation =
  agg_dslName :: string
  agg_type :: string
  agg_fields :: "FieldRef list option"

text \<open>
  Modelled from the spec: the rollup types of \<^verbatim>\<open>./rollup\<close>. A rollup job exposes a
  mapping from field name to a list of \<^verbatim>\<open>{agg: string}\<close> entries.
\<close>

datatype RollupAgg = RollupAgg (agg: string)

type_synonym RollupFields = "(string \<times> RollupAgg list) list"

record RollupJob =
  job_fields :: RollupFields

text \<open>One type variant of a field in the \<^verbatim>\<open>_field_caps\<close> response; a descriptor
  without a usable \<^verbatim>\<open>type\<close> has \<open>cap_type = None\<close>.\<close>

record FieldCap =
  cap_type :: "string option"
  cap_aggregatable :: bool

text \<open>The \<^verbatim>\<open>fields\<close> object of the response: field name to type variants. The response
  is \<open>None\<close> when it is falsy or has no \<^verbatim>\<open>fields\<close>.\<close>

type_synonym FieldCaps = "(FieldId \<times> (string \<times> FieldCap) list) list"
type_synonym FieldCapsResponse = "FieldCaps option"

record NewJobCaps =
  caps_aggs :: "Aggregation list"
  caps_fields :: "Field list"

datatype error = RequestFailed string

datatype call = RollupJobsCall string | FieldCapsCall string

text \<open>
  The collaborators of one request: \<open>callFieldCaps p\<close> is the outcome of
  \<^verbatim>\<open>callWithRequest('fieldCaps', {index: p, fields: '*'})\<close>; \<open>rollupJobs p\<close> is the
  outcome of \<^verbatim>\<open>rollupServiceProvider(p, ...)\<close> followed by \<^verbatim>\<open>getRollupJobs()\<close>
  (\<open>None\<close> is \<^verbatim>\<open>null\<close>); \<open>rollupIndexPattern p\<close> is what \<^verbatim>\<open>getIndexPattern()\<close> then
  returns; \<open>aggregations\<close> is the catalog of \<^verbatim>\<open>./aggregations\<close>; \<open>localeCompare\<close> is
  \<^verbatim>\<open>String.prototype.localeCompare\<close> in the locale of the process.
\<close>

record Env =
  callFieldCaps :: "string \<Rightarrow> error + FieldCapsResponse"
  rollupJobs :: "string \<Rightarrow> error + RollupJob list option"
  rollupIndexPattern :: "string \<Rightarrow> string"
  aggregations :: "Aggregation list"
  localeCompare :: "string \<Rightarrow> string \<Rightarrow> int"

subsection \<open>Built-ins of the language\<close>

text \<open>The value of \<^verbatim>\<open>Array.prototype.find\<close>: the first element that satisfies the
  predicate, or \<^verbatim>\<open>undefined\<close>. It is never \<^verbatim>\<open>null\<close> for an array of objects.\<close>

datatype 'a js_value = Undefined | Null | Object 'a

definition array_find :: "('a \<Rightarrow> bool) \<Rightarrow> 'a list \<Rightarrow> 'a js_value" where
  "array_find p xs = (case List.find p xs of None \<Rightarrow> Undefined | Some x \<Rightarrow> Object x)"

fun truthy :: "'a js_value \<Rightarrow> bool" where
  "truthy Undefined = False"
| "truthy Null = False"
| "truthy (Object x) = True"

text \<open>\<^verbatim>\<open>Array.prototype.sort\<close> with a comparator, as a stable insertion sort: \<open>x\<close> goes
  before the first element it does not compare greater than. For a consistent
  comparator every stable sort returns this list.\<close>

fun array_insert :: "('a \<Rightarrow> 'a \<Rightarrow> int) \<Rightarrow> 'a \<Rightarrow> 'a list \<Rightarrow> 'a list" where
  "array_insert cmp x [] = [x]"
| "array_insert cmp x (y # ys) =
     (if cmp x y \<le> 0 then x # y # ys else y # array_insert cmp x ys)"

definition array_sort :: "('a \<Rightarrow> 'a \<Rightarrow> int) \<Rightarrow> 'a list \<Rightarrow> 'a list" where
  "array_sort cmp xs = foldr (array_insert cmp) xs []"

text \<open>A comparison of strings by the codes of their characters. It stands for
  \<^verbatim>\<open>localeCompare\<close> where a statement is evaluated at a concrete input, and orders the
  words used there (\<^verbatim>\<open>age\<close> before \<^verbatim>\<open>name\<close>) as the locale-aware comparison does.\<close>

definition codeCompare :: "string \<Rightarrow> string \<Rightarrow> int" where
  "codeCompare a b = (if a = b then 0 else if a < b then - 1 else 1)"

subsection \<open>The service\<close>

definition supportedTypes :: "string list" where
  "supportedTypes =
     [ES_FIELD_TYPES_DATE, ES_FIELD_TYPES_KEYWORD, ES_FIELD_TYPES_TEXT, ES_FIELD_TYPES_DOUBLE,
      ES_FIELD_TYPES_INTEGER, ES_FIELD_TYPES_FLOAT, ES_FIELD_TYPES_LONG, ES_FIELD_TYPES_BYTE,
      ES_FIELD_TYPES_HALF_FLOAT, ES_FIELD_TYPES_SCALED_FLOAT, ES_FIELD_TYPES_SHORT]"

definition loadFieldCaps :: "Env \<Rightarrow> string \<Rightarrow> call list \<Rightarrow> call list \<times> (error + FieldCapsResponse)" where
  "loadFieldCaps env indexPattern log =
     (log @ [FieldCapsCall indexPattern], callFieldCaps env indexPattern)"

text \<open>The body of the \<^verbatim>\<open>forEach\<close> of \<^verbatim>\<open>createFields\<close> for the key \<open>k\<close> with the
  variants \<open>fc\<close>: the field objects pushed (none or one).\<close>

definition fieldOfCaps :: "FieldId \<times> (string \<times> FieldCap) list \<Rightarrow> Field list" where
  "fieldOfCaps entry =
     (case entry of (k, fc) \<Rightarrow>
        (case fc of
           [] \<Rightarrow> []
         | (firstKey, field) # _ \<Rightarrow>
             (case cap_type field of
                None \<Rightarrow> []
              | Some t \<Rightarrow>
                  if t \<in> set supportedTypes
                  then [\<lparr>field_id = k, field_name = k, field_type = t,
                         field_aggregatable = cap_aggregatable field, field_aggs = Some []\<rparr>]
                  else [])))"

text \<open>\<^verbatim>\<open>createFields\<close> after the response has arrived.\<close>

definition fieldsOfResponse :: "(string \<Rightarrow> string \<Rightarrow> int) \<Rightarrow> FieldCapsResponse \<Rightarrow> Field list" where
  "fieldsOfResponse lc fieldCaps =
     array_sort (\<lambda>a b. lc (field_id a) (field_id b))
       (case fieldCaps of None \<Rightarrow> [] | Some fs \<Rightarrow> concat (map fieldOfCaps fs))"

definition createFields :: "Env \<Rightarrow> string \<Rightarrow> call list \<Rightarrow> call list \<times> (error + Field list)" where
  "createFields env indexPattern log =
     (case loadFieldCaps env indexPattern log of
        (log', Inl e) \<Rightarrow> (log', Inl e)
      | (log', Inr fieldCaps) \<Rightarrow> (log', Inr (fieldsOfResponse (localeCompare env) fieldCaps)))"

definition getTextAndKeywordFields :: "Field list \<Rightarrow> FieldRef list" where
  "getTextAndKeywordFields flds =
     filter (\<lambda>i. field_type (flds ! i) = ES_FIELD_TYPES_KEYWORD
                \<or> field_type (flds ! i) = ES_FIELD_TYPES_TEXT) [0..<length flds]"

definition getNumericalFields :: "Field list \<Rightarrow> FieldRef list" where
  "getNumericalFields flds =
     filter (\<lambda>i. field_type (flds ! i) = ES_FIELD_TYPES_DOUBLE
                \<or> field_type (flds ! i) = ES_FIELD_TYPES_FLOAT
                \<or> field_type (flds ! i) = ES_FIELD_TYPES_LONG) [0..<length flds]"

text \<open>\<^verbatim>\<open>mixFactory(rollupFields)\<close> is the function \<^verbatim>\<open>mix\<close>; \<open>mixFactory rollupFields i j\<close>
  is \<^verbatim>\<open>mix(field, agg)\<close> for the field at \<open>i\<close> and the aggregation at \<open>j\<close>, on the
  store.\<close>

definition mixFactory ::
  "RollupFields \<Rightarrow> FieldRef \<Rightarrow> AggRef \<Rightarrow> Field list \<times> Aggregation list \<Rightarrow> Field list \<times> Aggregation list" where
  "mixFactory rollupFields i j store =
     (case store of (flds, aggs) \<Rightarrow>
        (let isRollup = (length (map fst rollupFields) > 0);
             field = flds ! i;
             agg = aggs ! j
         in if isRollup = False
               \<or> (case map_of rollupFields (field_id field) of
                     None \<Rightarrow> False
                   | Some entries \<Rightarrow>
                       truthy (array_find (\<lambda>f. RollupAgg.agg f = agg_dslName agg) entries))
            then
              (let flds' =
                     (case field_aggs field of
                        None \<Rightarrow> flds
                      | Some js \<Rightarrow> flds[i := field\<lparr>field_aggs := Some (js @ [j])\<rparr>]);
                   aggs' =
                     (case agg_fields agg of
                        None \<Rightarrow> aggs
                      | Some is \<Rightarrow> aggs[j := agg\<lparr>agg_fields := Some (is @ [i])\<rparr>])
               in (flds', aggs'))
            else (flds, aggs)))"

text \<open>The body of \<^verbatim>\<open>aggs.forEach\<close> in \<^verbatim>\<open>combineFieldsAndAggs\<close> for the aggregation
  at position \<open>j\<close>.\<close>

definition linkAgg ::
  "RollupFields \<Rightarrow> FieldRef list \<Rightarrow> FieldRef list \<Rightarrow> AggRef
     \<Rightarrow> Field list \<times> Aggregation list \<Rightarrow> Field list \<times> Aggregation list" where
  "linkAgg rollupFields textAndKeywordFields numericalFields j store =
     (let a = snd store ! j; mix = mixFactory rollupFields
      in if agg_type a = METRIC_AGG_TYPE then
           (if agg_dslName a = ES_AGGREGATION_CARDINALITY then
              fold (\<lambda>f. mix f j) numericalFields (fold (\<lambda>f. mix f j) textAndKeywordFields store)
            else if agg_dslName a = ES_AGGREGATION_COUNT then store
            else fold (\<lambda>f. mix f j) numericalFields store)
         else store)"

definition filterFields :: "Field list \<Rightarrow> Field list" where
  "filterFields flds =
     filter (\<lambda>f. case field_aggs f of None \<Rightarrow> False | Some js \<Rightarrow> length js \<noteq> 0) flds"

definition filterAggs :: "Aggregation list \<Rightarrow> Aggregation list" where
  "filterAggs aggs =
     filter (\<lambda>a. case agg_fields a of None \<Rightarrow> False | Some is \<Rightarrow> length is \<noteq> 0) aggs"

text \<open>The store of \<^verbatim>\<open>combineFieldsAndAggs\<close> when its \<^verbatim>\<open>forEach\<close> has finished.\<close>

definition crossReference ::
  "Field list \<Rightarrow> Aggregation list \<Rightarrow> RollupFields \<Rightarrow> Field list \<times> Aggregation list" where
  "crossReference flds aggs rollupFields =
     (let textAndKeywordFields = getTextAndKeywordFields flds;
          numericalFields = getNumericalFields flds
      in fold (linkAgg rollupFields textAndKeywordFields numericalFields)
           [0..<length aggs] (flds, aggs))"

definition combineFieldsAndAggs :: "Field list \<Rightarrow> Aggregation list \<Rightarrow> RollupFields \<Rightarrow> NewJobCaps" where
  "combineFieldsAndAggs flds aggs rollupFields =
     (case crossReference flds aggs rollupFields of
        (flds', aggs') \<Rightarrow> \<lparr>caps_aggs = filterAggs aggs', caps_fields = filterFields flds'\<rparr>)"

text \<open>The inner \<^verbatim>\<open>aggs.forEach\<close> of \<^verbatim>\<open>combineAllRollupFields\<close>: the entry of the
  merged map, then the entries of the job.\<close>

fun mergeAggs :: "RollupAgg list \<Rightarrow> RollupAgg list \<Rightarrow> RollupAgg list" where
  "mergeAggs merged [] = merged"
| "mergeAggs merged (a # as) =
     mergeAggs
       (if array_find (\<lambda>f. RollupAgg.agg f = RollupAgg.agg a) merged = Null
        then merged @ [a] else merged)
       as"

definition mergeField :: "RollupFields \<Rightarrow> string \<times> RollupAgg list \<Rightarrow> RollupFields" where
  "mergeField rollupFields entry =
     (case entry of (fieldName, aggs) \<Rightarrow>
        (case map_of rollupFields fieldName of
           None \<Rightarrow> rollupFields @ [(fieldName, aggs)]
         | Some merged \<Rightarrow> AList.update fieldName (mergeAggs merged aggs) rollupFields))"

definition combineAllRollupFields :: "RollupJob list \<Rightarrow> RollupFields" where
  "combineAllRollupFields rollupConfigs =
     foldl (\<lambda>rollupFields conf. foldl mergeField rollupFields (job_fields conf)) [] rollupConfigs"

text \<open>Lines 120 to 123 of \<^verbatim>\<open>getData\<close>: clone the catalog, create the fields, combine.\<close>

definition loadAndCombine ::
  "Env \<Rightarrow> string \<Rightarrow> RollupFields \<Rightarrow> call list \<Rightarrow> call list \<times> (error + NewJobCaps)" where
  "loadAndCombine env indexPattern rollupFields log =
     (let aggs = aggregations env
      in case createFields env indexPattern log of
           (log', Inl e) \<Rightarrow> (log', Inl e)
         | (log', Inr flds) \<Rightarrow> (log', Inr (combineFieldsAndAggs flds aggs rollupFields)))"

definition getData :: "Env \<Rightarrow> string \<Rightarrow> bool \<Rightarrow> call list \<times> (error + NewJobCaps)" where
  "getData env indexPattern isRollup =
     (if isRollup then
        (case rollupJobs env indexPattern of
           Inl e \<Rightarrow> ([RollupJobsCall indexPattern], Inl e)
         | Inr None \<Rightarrow> ([RollupJobsCall indexPattern], Inr \<lparr>caps_aggs = [], caps_fields = []\<rparr>)
         | Inr (Some rollupConfigs) \<Rightarrow>
             loadAndCombine env (rollupIndexPattern env indexPattern)
               (combineAllRollupFields rollupConfigs) [RollupJobsCall indexPattern])
      else loadAndCombine env indexPattern [] [])"

section \<open>Notions used in the statements\<close>

subsection \<open>The gate and the type rules of the cross-referencing\<close>

text \<open>The condition of \<^verbatim>\<open>mix\<close>: the map is empty (\<^verbatim>\<open>mix\<close> then takes the request for
  a non-rollup one), or it has an entry for the field that lists the DSL name.\<close>

definition permitted :: "RollupFields \<Rightarrow> FieldId \<Rightarrow> string \<Rightarrow> bool" where
  "permitted rollupFields fid dsl =
     (rollupFields = [] \<or>
      (case map_of rollupFields fid of
         None \<Rightarrow> False
       | Some entries \<Rightarrow> truthy (array_find (\<lambda>f. RollupAgg.agg f = dsl) entries)))"

text \<open>The two pushes of \<^verbatim>\<open>mix\<close>, each on its own object.\<close>

definition pushAgg :: "AggRef \<Rightarrow> Field \<Rightarrow> Field" where
  "pushAgg j f = (case field_aggs f of None \<Rightarrow> f | Some js \<Rightarrow> f\<lparr>field_aggs := Some (js @ [j])\<rparr>)"

definition pushField :: "FieldRef \<Rightarrow> Aggregation \<Rightarrow> Aggregation" where
  "pushField i a = (case agg_fields a of None \<Rightarrow> a | Some is \<Rightarrow> a\<lparr>agg_fields := Some (is @ [i])\<rparr>)"

definition linkField :: "RollupFields \<Rightarrow> AggRef \<Rightarrow> string \<Rightarrow> Field \<Rightarrow> Field" where
  "linkField rf j dsl f = (if permitted rf (field_id f) dsl then pushAgg j f else f)"

definition linkAggTo :: "RollupFields \<Rightarrow> FieldId \<Rightarrow> FieldRef \<Rightarrow> Aggregation \<Rightarrow> Aggregation" where
  "linkAggTo rf fid i a = (if permitted rf fid (agg_dslName a) then pushField i a else a)"

text \<open>The fields that \<^verbatim>\<open>combineFieldsAndAggs\<close> offers to \<^verbatim>\<open>mix\<close> for the aggregation
  \<open>a\<close>, in the order of the calls.\<close>

definition targets :: "FieldRef list \<Rightarrow> FieldRef list \<Rightarrow> Aggregation \<Rightarrow> FieldRef list" where
  "targets tk num a =
     (if agg_type a = METRIC_AGG_TYPE then
        (if agg_dslName a = ES_AGGREGATION_CARDINALITY then tk @ num
         else if agg_dslName a = ES_AGGREGATION_COUNT then [] else num)
      else [])"

definition isTextOrKeyword :: "Field \<Rightarrow> bool" where
  "isTextOrKeyword f = (field_type f = ES_FIELD_TYPES_KEYWORD \<or> field_type f = ES_FIELD_TYPES_TEXT)"

definition isNumerical :: "Field \<Rightarrow> bool" where
  "isNumerical f = (field_type f = ES_FIELD_TYPES_DOUBLE \<or> field_type f = ES_FIELD_TYPES_FLOAT
      \<or> field_type f = ES_FIELD_TYPES_LONG)"

definition compatible :: "Field \<Rightarrow> Aggregation \<Rightarrow> bool" where
  "compatible f a =
     (agg_type a = METRIC_AGG_TYPE \<and>
      (if agg_dslName a = ES_AGGREGATION_CARDINALITY then isTextOrKeyword f \<or> isNumerical f
       else if agg_dslName a = ES_AGGREGATION_COUNT then False
       else isNumerical f))"

definition linked :: "RollupFields \<Rightarrow> Field \<Rightarrow> Aggregation \<Rightarrow> bool" where
  "linked rf f a = (compatible f a \<and> permitted rf (field_id f) (agg_dslName a))"

subsection \<open>Conditions on the inputs\<close>

text \<open>The catalog as the spec describes it: every aggregation starts with an empty list
  of fields.\<close>

definition freshCatalog :: "Aggregation list \<Rightarrow> bool" where
  "freshCatalog aggs = (\<forall>a\<in>set aggs. agg_fields a = Some [])"

text \<open>A comparison function that orders: any two elements are comparable, and the order
  is transitive. A locale-aware string comparison is one.\<close>

definition comparator :: "('a \<Rightarrow> 'a \<Rightarrow> int) \<Rightarrow> bool" where
  "comparator cmp =
     ((\<forall>a b. cmp a b \<le> 0 \<or> cmp b a \<le> 0) \<and>
      (\<forall>a b c. cmp a b \<le> 0 \<longrightarrow> cmp b c \<le> 0 \<longrightarrow> cmp a c \<le> 0))"

text \<open>Two capability reports with the same field names and the same type variants in the
  same order; the \<^verbatim>\<open>aggregatable\<close> flags are free.\<close>

definition sameTypes :: "FieldCaps \<Rightarrow> FieldCaps \<Rightarrow> bool" where
  "sameTypes r1 r2 =
     list_all2
       (\<lambda>e1 e2. fst e1 = fst e2 \<and>
          list_all2 (\<lambda>v1 v2. fst v1 = fst v2 \<and> cap_type (snd v1) = cap_type (snd v2))
            (snd e1) (snd e2))
       r1 r2"

definition eraseAggregatable :: "Field \<Rightarrow> Field" where
  "eraseAggregatable f = f\<lparr>field_aggregatable := False\<rparr>"

subsection \<open>Concrete inputs\<close>

text \<open>The scenario of the spec: the fields \<^verbatim>\<open>age\<close> (long) and \<^verbatim>\<open>name\<close> (keyword), and a
  catalog of the metric aggregations avg, cardinality and count in this order.\<close>

definition aggAvg :: Aggregation where
  "aggAvg = \<lparr>agg_dslName = ''avg'', agg_type = METRIC_AGG_TYPE, agg_fields = Some []\<rparr>"

definition aggCardinality :: Aggregation where
  "aggCardinality =
     \<lparr>agg_dslName = ES_AGGREGATION_CARDINALITY, agg_type = METRIC_AGG_TYPE, agg_fields = Some []\<rparr>"

definition aggCount :: Aggregation where
  "aggCount = \<lparr>agg_dslName = ES_AGGREGATION_COUNT, agg_type = METRIC_AGG_TYPE, agg_fields = Some []\<rparr>"

definition scenarioCatalog :: "Aggregation list" where
  "scenarioCatalog = [aggAvg, aggCardinality, aggCount]"

definition scenarioReport :: FieldCaps where
  "scenarioReport =
     [(''age'', [(''long'', \<lparr>cap_type = Some ''long'', cap_aggregatable = True\<rparr>)]),
      (''name'', [(''keyword'', \<lparr>cap_type = Some ''keyword'', cap_aggregatable = True\<rparr>)])]"

definition scenarioEnv :: Env where
  "scenarioEnv =
     \<lparr>callFieldCaps = (\<lambda>p. Inr (Some scenarioReport)),
      rollupJobs = (\<lambda>p. Inr None),
      rollupIndexPattern = (\<lambda>p. p),
      aggregations = scenarioCatalog,
      localeCompare = codeCompare\<rparr>"

text \<open>What the service returns in the scenario. The field references are \<open>0\<close> for
  \<^verbatim>\<open>age\<close> and \<open>1\<close> for \<^verbatim>\<open>name\<close>; the aggregation references are \<open>0\<close> for avg, \<open>1\<close> for
  cardinality and \<open>2\<close> for count.\<close>

definition scenarioFields :: "Field list" where
  "scenarioFields =
     [\<lparr>field_id = ''age'', field_name = ''age'', field_type = ''long'',
       field_aggregatable = True, field_aggs = Some [0, 1]\<rparr>,
      \<lparr>field_id = ''name'', field_name = ''name'', field_type = ''keyword'',
       field_aggregatable = True, field_aggs = Some [1]\<rparr>]"

definition scenarioCaps :: NewJobCaps where
  "scenarioCaps =
     \<lparr>caps_aggs = [aggAvg\<lparr>agg_fields := Some [0]\<rparr>, aggCardinality\<lparr>agg_fields := Some [1, 0]\<rparr>],
      caps_fields = scenarioFields\<rparr>"

text \<open>The result with the fields of cardinality in the order \<^verbatim>\<open>age\<close>, \<^verbatim>\<open>name\<close>.\<close>

definition sortedLinksCaps :: NewJobCaps where
  "sortedLinksCaps =
     \<lparr>caps_aggs = [aggAvg\<lparr>agg_fields := Some [0]\<rparr>, aggCardinality\<lparr>agg_fields := Some [0, 1]\<rparr>],
      caps_fields = scenarioFields\<rparr>"

text \<open>A rollup index whose only job lists no field, and one whose job lists avg for
  \<^verbatim>\<open>age\<close>.\<close>

definition emptyRollupJob :: RollupJob where
  "emptyRollupJob = \<lparr>job_fields = []\<rparr>"

definition emptyRollupEnv :: Env where
  "emptyRollupEnv = scenarioEnv\<lparr>rollupJobs := (\<lambda>p. Inr (Some [emptyRollupJob]))\<rparr>"

definition avgRollupEnv :: Env where
  "avgRollupEnv =
     scenarioEnv\<lparr>rollupJobs := (\<lambda>p. Inr (Some [\<lparr>job_fields = [(''age'', [RollupAgg ''avg''])]\<rparr>]))\<rparr>"

text \<open>No rollup job, and a field capability service that fails when asked.\<close>

definition unreachableEnv :: Env where
  "unreachableEnv = scenarioEnv\<lparr>callFieldCaps := (\<lambda>p. Inl (RequestFailed ''unreachable''))\<rparr>"

text \<open>Two rollup jobs on the same field; the later one lists one aggregation more.\<close>

definition firstJob :: RollupJob where
  "firstJob = \<lparr>job_fields = [(''price'', [RollupAgg ''avg''])]\<rparr>"

definition laterJob :: RollupJob where
  "laterJob = \<lparr>job_fields = [(''price'', [RollupAgg ''avg'', RollupAgg ''max''])]\<rparr>"

text \<open>The scenario with \<^verbatim>\<open>age\<close> reported as not aggregatable.\<close>

definition nonAggregatableReport :: FieldCaps where
  "nonAggregatableReport =
     [(''age'', [(''long'', \<lparr>cap_type = Some ''long'', cap_aggregatable = False\<rparr>)]),
      (''name'', [(''keyword'', \<lparr>cap_type = Some ''keyword'', cap_aggregatable = True\<rparr>)])]"

text \<open>A report with an unsupported type, a field without a type variant and a field with
  two variants.\<close>

definition mixedReport :: FieldCaps where
  "mixedReport =
     [(''name'', [(''keyword'', \<lparr>cap_type = Some ''keyword'', cap_aggregatable = True\<rparr>)]),
      (''where'', [(''geo_point'', \<lparr>cap_type = Some ''geo_point'', cap_aggregatable = True\<rparr>)]),
      (''blank'', []),
      (''age'', [(''long'', \<lparr>cap_type = Some ''long'', cap_aggregatable = False\<rparr>),
                (''text'', \<lparr>cap_type = Some ''text'', cap_aggregatable = True\<rparr>)])]"

definition mixedEnv :: Env where
  "mixedEnv = scenarioEnv\<lparr>callFieldCaps := (\<lambda>p. Inr (Some mixedReport))\<rparr>"

section \<open>Properties of the operations\<close>

subsection \<open>One call of mix, and the iterations around it\<close>

lemmas es_constants =
  ES_FIELD_TYPES_DATE_def ES_FIELD_TYPES_KEYWORD_def ES_FIELD_TYPES_TEXT_def
  ES_FIELD_TYPES_DOUBLE_def ES_FIELD_TYPES_INTEGER_def ES_FIELD_TYPES_FLOAT_def
  ES_FIELD_TYPES_LONG_def ES_FIELD_TYPES_BYTE_def ES_FIELD_TYPES_HALF_FLOAT_def
  ES_FIELD_TYPES_SCALED_FLOAT_def ES_FIELD_TYPES_SHORT_def
  ES_AGGREGATION_CARDINALITY_def ES_AGGREGATION_COUNT_def METRIC_AGG_TYPE_def

text \<open>One call of \<^verbatim>\<open>mix\<close> changes at most the field at \<open>i\<close> and the aggregation at \<open>j\<close>;
  whether it does depends only on the identifier of the field and the DSL name of the
  aggregation, which no call changes.\<close>

lemma mixFactory_eq:
  "mixFactory rf i j (fs, as) =
     (fs[i := linkField rf j (agg_dslName (as ! j)) (fs ! i)],
      as[j := linkAggTo rf (field_id (fs ! i)) i (as ! j)])"
  by (auto simp: mixFactory_def linkField_def linkAggTo_def permitted_def pushAgg_def pushField_def
      Let_def split: option.splits)

lemma linkField_simps [simp]:
  "field_id (linkField rf j d f) = field_id f"
  "field_name (linkField rf j d f) = field_name f"
  "field_type (linkField rf j d f) = field_type f"
  "field_aggregatable (linkField rf j d f) = field_aggregatable f"
  by (auto simp: linkField_def pushAgg_def split: option.splits)

lemma linkAggTo_simps [simp]:
  "agg_dslName (linkAggTo rf fid i a) = agg_dslName a"
  "agg_type (linkAggTo rf fid i a) = agg_type a"
  by (auto simp: linkAggTo_def pushField_def split: option.splits)

lemma nth_update_attr:
  assumes "\<And>x. g (h x) = g x"
  shows "g (xs[i := h (xs ! i)] ! k) = g (xs ! k)"
  using assms by (cases "i < length xs") (auto simp: nth_list_update list_update_beyond)

lemma linkAgg_eq:
  "linkAgg rf tk num j st = fold (\<lambda>f. mixFactory rf f j) (targets tk num (snd st ! j)) st"
  by (simp add: linkAgg_def targets_def Let_def)

text \<open>A \<^verbatim>\<open>forEach\<close> over field references with one aggregation, seen from the fields and
  seen from the aggregation.\<close>

lemma fold_mix_fst:
  "fst (fold (\<lambda>i. mixFactory rf i j) is (fs, as)) =
     fold (\<lambda>i fs. fs[i := linkField rf j (agg_dslName (as ! j)) (fs ! i)]) is fs"
proof (induction "is" arbitrary: fs as)
  case Nil
  then show ?case by simp
next
  case (Cons a "is")
  have d: "agg_dslName (as[j := linkAggTo rf (field_id (fs ! a)) a (as ! j)] ! j) = agg_dslName (as ! j)"
    by (rule nth_update_attr) simp
  show ?case by (simp add: mixFactory_eq Cons.IH d)
qed

lemma fold_mix_snd:
  "snd (fold (\<lambda>i. mixFactory rf i j) is (fs, as)) =
     as[j := fold (\<lambda>i a. linkAggTo rf (field_id (fs ! i)) i a) is (as ! j)]"
proof (induction "is" arbitrary: fs as)
  case Nil
  then show ?case by simp
next
  case (Cons a "is")
  let ?fs = "fs[a := linkField rf j (agg_dslName (as ! j)) (fs ! a)]"
  have ids: "\<And>i. field_id (?fs ! i) = field_id (fs ! i)"
    by (rule nth_update_attr) simp
  show ?case
    by (cases "j < length as") (simp_all add: mixFactory_eq Cons.IH ids list_update_beyond)
qed

lemma fold_point_update_nth:
  "distinct is \<Longrightarrow> k < length xs \<Longrightarrow>
   fold (\<lambda>i xs. xs[i := g (xs ! i)]) is xs ! k = (if k \<in> set is then g (xs ! k) else xs ! k)"
proof (induction "is" arbitrary: xs)
  case Nil
  then show ?case by simp
next
  case (Cons a "is")
  show ?case
  proof (cases "k = a")
    case True
    with Cons show ?thesis by simp
  next
    case False
    with Cons show ?thesis by (simp add: nth_list_update)
  qed
qed

lemma fold_point_update_length [simp]:
  "length (fold (\<lambda>i xs. xs[i := g (xs ! i)]) is xs) = length xs"
  by (induction "is" arbitrary: xs) auto

lemma fold_linkAggTo_fields:
  "agg_fields (fold (\<lambda>i a. linkAggTo rf (fid i) i a) is a) =
     map_option (\<lambda>xs. xs @ filter (\<lambda>i. permitted rf (fid i) (agg_dslName a)) is) (agg_fields a)"
  by (induction "is" arbitrary: a)
    (auto simp: linkAggTo_def pushField_def option.map_ident split: option.splits)

lemma fold_linkAggTo_simps [simp]:
  "agg_dslName (fold (\<lambda>i a. linkAggTo rf (fid i) i a) is a) = agg_dslName a"
  "agg_type (fold (\<lambda>i a. linkAggTo rf (fid i) i a) is a) = agg_type a"
  by (induction "is" arbitrary: a) auto

lemma targets_cong:
  "agg_type a = agg_type b \<Longrightarrow> agg_dslName a = agg_dslName b \<Longrightarrow> targets tk num a = targets tk num b"
  by (simp add: targets_def)

lemma distinct_targets:
  "distinct (getTextAndKeywordFields fs @ getNumericalFields fs)"
  by (auto simp: getTextAndKeywordFields_def getNumericalFields_def es_constants)

lemma distinct_targets':
  "distinct (targets (getTextAndKeywordFields fs) (getNumericalFields fs) a)"
  using distinct_targets [of fs] by (auto simp: targets_def)

lemma set_targets:
  "set (targets (getTextAndKeywordFields fs) (getNumericalFields fs) a) =
     {i. i < length fs \<and> compatible (fs ! i) a}"
  by (auto simp: targets_def getTextAndKeywordFields_def getNumericalFields_def compatible_def
      isTextOrKeyword_def isNumerical_def)

lemma linkAgg_fst:
  "fst (linkAgg rf tk num j (fs, as)) =
     fold (\<lambda>i fs. fs[i := linkField rf j (agg_dslName (as ! j)) (fs ! i)]) (targets tk num (as ! j)) fs"
  by (simp add: linkAgg_eq fold_mix_fst)

lemma linkAgg_snd:
  "snd (linkAgg rf tk num j (fs, as)) =
     as[j := fold (\<lambda>i a. linkAggTo rf (field_id (fs ! i)) i a) (targets tk num (as ! j)) (as ! j)]"
  by (simp add: linkAgg_eq fold_mix_snd)

lemma linkAgg_length [simp]:
  "length (fst (linkAgg rf tk num j (fs, as))) = length fs"
  "length (snd (linkAgg rf tk num j (fs, as))) = length as"
  by (simp_all add: linkAgg_fst linkAgg_snd)

lemma fold_point_update_attr:
  assumes "\<And>x. g (h x) = g x"
  shows "g (fold (\<lambda>i xs. xs[i := h (xs ! i)]) is xs ! k) = g (xs ! k)"
proof (induction "is" arbitrary: xs)
  case Nil
  then show ?case by simp
next
  case (Cons a "is")
  then show ?case using nth_update_attr [of g h, OF assms] by simp
qed

lemma linkAgg_field_attrs [simp]:
  "field_id (fst (linkAgg rf tk num j (fs, as)) ! k) = field_id (fs ! k)"
  "field_name (fst (linkAgg rf tk num j (fs, as)) ! k) = field_name (fs ! k)"
  "field_type (fst (linkAgg rf tk num j (fs, as)) ! k) = field_type (fs ! k)"
  "field_aggregatable (fst (linkAgg rf tk num j (fs, as)) ! k) = field_aggregatable (fs ! k)"
  unfolding linkAgg_fst by (rule fold_point_update_attr, simp)+

lemma linkAgg_agg_attrs [simp]:
  "agg_dslName (snd (linkAgg rf tk num j (fs, as)) ! k) = agg_dslName (as ! k)"
  "agg_type (snd (linkAgg rf tk num j (fs, as)) ! k) = agg_type (as ! k)"
  unfolding linkAgg_snd
  by (cases "j < length as"; cases "k = j"; simp add: list_update_beyond)+

lemma targets_linkAgg [simp]:
  "targets tk num (snd (linkAgg rf tk' num' j (fs, as)) ! k) = targets tk num (as ! k)"
  by (rule targets_cong) simp_all

lemma linkAgg_length' [simp]:
  "length (fst (linkAgg rf tk num j st)) = length (fst st)"
  "length (snd (linkAgg rf tk num j st)) = length (snd st)"
  by (cases st; simp)+

lemma fold_linkAgg_length' [simp]:
  "length (fst (fold (linkAgg rf tk num) js st)) = length (fst st)"
  "length (snd (fold (linkAgg rf tk num) js st)) = length (snd st)"
  by (induction js arbitrary: st; simp)+

text \<open>The outer \<^verbatim>\<open>forEach\<close> over the aggregations, seen from one field and from one
  aggregation.\<close>

lemma fold_linkAgg_field:
  assumes "k < length fs" and "\<And>a. distinct (targets tk num a)"
  shows "fst (fold (linkAgg rf tk num) js (fs, as)) ! k =
           fold (\<lambda>j f. if k \<in> set (targets tk num (as ! j))
                        then linkField rf j (agg_dslName (as ! j)) f else f) js (fs ! k)"
  using assms(1)
proof (induction js arbitrary: fs as)
  case Nil
  then show ?case by simp
next
  case (Cons j js)
  obtain fs1 as1 where st: "linkAgg rf tk num j (fs, as) = (fs1, as1)"
    by (cases "linkAgg rf tk num j (fs, as)")
  have fs1: "fs1 = fst (linkAgg rf tk num j (fs, as))" and as1: "as1 = snd (linkAgg rf tk num j (fs, as))"
    by (simp_all add: st)
  have len: "k < length fs1" using Cons.prems by (simp add: fs1)
  have k: "fs1 ! k = (if k \<in> set (targets tk num (as ! j))
                      then linkField rf j (agg_dslName (as ! j)) (fs ! k) else fs ! k)"
    unfolding fs1 linkAgg_fst
    by (rule fold_point_update_nth) (simp_all add: assms(2) Cons.prems)
  have dsl1: "\<And>j'. agg_dslName (as1 ! j') = agg_dslName (as ! j')"
    and tg1: "\<And>j'. targets tk num (as1 ! j') = targets tk num (as ! j')"
    by (simp_all add: as1)
  show ?case
    by (simp add: st Cons.IH [OF len] k dsl1 tg1 cong: if_cong)
qed

lemma fold_linkField_aggs:
  "field_aggs (fold (\<lambda>j f. if C j then linkField rf j (D j) f else f) js f) =
     map_option (\<lambda>xs. xs @ filter (\<lambda>j. C j \<and> permitted rf (field_id f) (D j)) js) (field_aggs f)"
proof (induction js arbitrary: f)
  case Nil
  then show ?case by (simp add: option.map_ident)
next
  case (Cons j js)
  have id: "field_id (if C j then linkField rf j (D j) f else f) = field_id f" by simp
  show ?case
    unfolding fold_simps Cons.IH id
    by (auto simp: linkField_def pushAgg_def option.map_comp comp_def split: option.splits)
qed

lemma fold_linkField_attrs [simp]:
  "field_id (fold (\<lambda>j f. if C j then linkField rf j (D j) f else f) js f) = field_id f"
  "field_name (fold (\<lambda>j f. if C j then linkField rf j (D j) f else f) js f) = field_name f"
  "field_type (fold (\<lambda>j f. if C j then linkField rf j (D j) f else f) js f) = field_type f"
  "field_aggregatable (fold (\<lambda>j f. if C j then linkField rf j (D j) f else f) js f) = field_aggregatable f"
  by (induction js arbitrary: f; simp)+

lemma fold_linkAgg_agg:
  assumes "j < length as" and "distinct js"
  shows "snd (fold (linkAgg rf tk num) js (fs, as)) ! j =
           (if j \<in> set js
            then fold (\<lambda>i a. linkAggTo rf (field_id (fs ! i)) i a) (targets tk num (as ! j)) (as ! j)
            else as ! j)"
  using assms
proof (induction js arbitrary: fs as)
  case Nil
  then show ?case by simp
next
  case (Cons j0 js)
  obtain fs1 as1 where st: "linkAgg rf tk num j0 (fs, as) = (fs1, as1)"
    by (cases "linkAgg rf tk num j0 (fs, as)")
  have fs1: "fs1 = fst (linkAgg rf tk num j0 (fs, as))" and as1: "as1 = snd (linkAgg rf tk num j0 (fs, as))"
    by (simp_all add: st)
  have len: "j < length as1" using Cons.prems by (simp add: as1)
  have d: "distinct js" "j0 \<notin> set js" using Cons.prems by simp_all
  have ids: "\<And>i. field_id (fs1 ! i) = field_id (fs ! i)" by (simp add: fs1)
  have tg: "targets tk num (as1 ! j) = targets tk num (as ! j)" by (simp add: as1)
  have step: "as1 ! j = (if j = j0
       then fold (\<lambda>i a. linkAggTo rf (field_id (fs ! i)) i a) (targets tk num (as ! j)) (as ! j)
       else as ! j)"
    using Cons.prems(1) unfolding as1 linkAgg_snd by (simp add: nth_list_update)
  have "snd (fold (linkAgg rf tk num) (j0 # js) (fs, as)) ! j =
          snd (fold (linkAgg rf tk num) js (fs1, as1)) ! j"
    by (simp add: st)
  also have "\<dots> = (if j \<in> set js
            then fold (\<lambda>i a. linkAggTo rf (field_id (fs1 ! i)) i a) (targets tk num (as1 ! j)) (as1 ! j)
            else as1 ! j)"
    by (rule Cons.IH [OF len d(1)])
  also have "\<dots> = (if j \<in> set (j0 # js)
            then fold (\<lambda>i a. linkAggTo rf (field_id (fs ! i)) i a) (targets tk num (as ! j)) (as ! j)
            else as ! j)"
    using d tg step by (auto simp: ids)
  finally show ?case .
qed

subsection \<open>The store after the cross-referencing\<close>

lemma crossReference_length [simp]:
  "length (fst (crossReference fs as rf)) = length fs"
  "length (snd (crossReference fs as rf)) = length as"
  by (simp_all add: crossReference_def Let_def)

lemma crossReference_field_nth:
  assumes "k < length fs"
  shows "fst (crossReference fs as rf) ! k =
           fold (\<lambda>j f. if k \<in> set (targets (getTextAndKeywordFields fs) (getNumericalFields fs) (as ! j))
                        then linkField rf j (agg_dslName (as ! j)) f else f) [0..<length as] (fs ! k)"
  unfolding crossReference_def Let_def
  by (rule fold_linkAgg_field [OF assms]) (rule distinct_targets')

lemma crossReference_field_attrs:
  assumes "k < length fs"
  shows "field_id (fst (crossReference fs as rf) ! k) = field_id (fs ! k)"
    and "field_name (fst (crossReference fs as rf) ! k) = field_name (fs ! k)"
    and "field_type (fst (crossReference fs as rf) ! k) = field_type (fs ! k)"
    and "field_aggregatable (fst (crossReference fs as rf) ! k) = field_aggregatable (fs ! k)"
  by (simp_all add: crossReference_field_nth [OF assms])

text \<open>The aggregation list of a field after the cross-referencing: what it had before,
  then the references of the aggregations it is linked to, in the order of the catalog.\<close>

lemma crossReference_field_aggs:
  assumes "k < length fs"
  shows "field_aggs (fst (crossReference fs as rf) ! k) =
           map_option (\<lambda>xs. xs @ filter (\<lambda>j. linked rf (fs ! k) (as ! j)) [0..<length as])
             (field_aggs (fs ! k))"
proof -
  have "filter (\<lambda>j. k \<in> set (targets (getTextAndKeywordFields fs) (getNumericalFields fs) (as ! j))
                    \<and> permitted rf (field_id (fs ! k)) (agg_dslName (as ! j))) [0..<length as]
        = filter (\<lambda>j. linked rf (fs ! k) (as ! j)) [0..<length as]"
    using assms by (simp add: set_targets linked_def)
  then show ?thesis
    by (simp add: crossReference_field_nth [OF assms] fold_linkField_aggs)
qed

lemma crossReference_agg_nth:
  assumes "j < length as"
  shows "snd (crossReference fs as rf) ! j =
           fold (\<lambda>i a. linkAggTo rf (field_id (fs ! i)) i a)
             (targets (getTextAndKeywordFields fs) (getNumericalFields fs) (as ! j)) (as ! j)"
  using assms unfolding crossReference_def Let_def
  by (simp add: fold_linkAgg_agg)

lemma crossReference_agg_attrs:
  assumes "j < length as"
  shows "agg_dslName (snd (crossReference fs as rf) ! j) = agg_dslName (as ! j)"
    and "agg_type (snd (crossReference fs as rf) ! j) = agg_type (as ! j)"
  by (simp_all add: crossReference_agg_nth [OF assms])

text \<open>The field list of an aggregation after the cross-referencing: what it had before,
  then the references of the fields the gate lets through, text and keyword fields before
  numerical ones for cardinality.\<close>

lemma crossReference_agg_fields:
  assumes "j < length as"
  shows "agg_fields (snd (crossReference fs as rf) ! j) =
           map_option
             (\<lambda>xs. xs @ filter (\<lambda>i. permitted rf (field_id (fs ! i)) (agg_dslName (as ! j)))
                           (targets (getTextAndKeywordFields fs) (getNumericalFields fs) (as ! j)))
             (agg_fields (as ! j))"
  by (simp add: crossReference_agg_nth [OF assms] fold_linkAggTo_fields)

lemma set_linked_fields:
  "set (filter (\<lambda>i. permitted rf (field_id (fs ! i)) (agg_dslName a))
          (targets (getTextAndKeywordFields fs) (getNumericalFields fs) a)) =
     {i. i < length fs \<and> linked rf (fs ! i) a}"
  by (auto simp: set_targets linked_def)

subsection \<open>Sorting\<close>

lemma set_array_insert [simp]: "set (array_insert cmp x ys) = insert x (set ys)"
  by (induction ys) auto

lemma set_array_sort [simp]: "set (array_sort cmp xs) = set xs"
  by (induction xs) (simp_all add: array_sort_def)

lemma length_array_insert [simp]: "length (array_insert cmp x ys) = Suc (length ys)"
  by (induction ys) auto

lemma length_array_sort [simp]: "length (array_sort cmp xs) = length xs"
  by (induction xs) (simp_all add: array_sort_def)

text \<open>For a comparison that orders, the sort returns an ordered list.\<close>

lemma sorted_array_insert:
  assumes "comparator cmp" and "sorted_wrt (\<lambda>a b. cmp a b \<le> 0) ys"
  shows "sorted_wrt (\<lambda>a b. cmp a b \<le> 0) (array_insert cmp x ys)"
  using assms(2)
proof (induction ys)
  case Nil
  then show ?case by simp
next
  case (Cons y ys)
  from assms(1) have tot: "\<And>a b. cmp a b \<le> 0 \<or> cmp b a \<le> 0"
    and tr: "\<And>a b c. cmp a b \<le> 0 \<Longrightarrow> cmp b c \<le> 0 \<Longrightarrow> cmp a c \<le> 0"
    unfolding comparator_def by blast+
  show ?case
  proof (cases "cmp x y \<le> 0")
    case True
    with Cons.prems tr show ?thesis by auto
  next
    case False
    with tot [of x y] have "cmp y x \<le> 0" by simp
    with False Cons show ?thesis by auto
  qed
qed

lemma sorted_array_sort:
  "comparator cmp \<Longrightarrow> sorted_wrt (\<lambda>a b. cmp a b \<le> 0) (array_sort cmp xs)"
  by (induction xs) (simp_all add: array_sort_def sorted_array_insert)

lemma comparator_codeCompare: "comparator codeCompare"
  unfolding comparator_def codeCompare_def by auto

lemma array_insert_map:
  assumes "\<And>a b. cmp' (h a) (h b) = cmp a b"
  shows "array_insert cmp' (h x) (map h ys) = map h (array_insert cmp x ys)"
  by (induction ys) (simp_all add: assms)

lemma array_sort_map:
  assumes "\<And>a b. cmp' (h a) (h b) = cmp a b"
  shows "array_sort cmp' (map h xs) = map h (array_sort cmp xs)"
  by (induction xs) (simp_all add: array_sort_def array_insert_map [of cmp' h cmp, OF assms])

subsection \<open>The shape of the result\<close>

lemmas scenario_defs = scenarioEnv_def scenarioReport_def scenarioCatalog_def aggAvg_def aggCardinality_def aggCount_def

lemmas service_defs = getData_def loadAndCombine_def createFields_def loadFieldCaps_def
  fieldsOfResponse_def fieldOfCaps_def supportedTypes_def array_sort_def codeCompare_def
  combineFieldsAndAggs_def crossReference_def linkAgg_def mixFactory_def
  getTextAndKeywordFields_def getNumericalFields_def filterFields_def filterAggs_def
  array_find_def combineAllRollupFields_def mergeField_def

lemma combineFieldsAndAggs_filtered:
  "\<exists>fs' as'. combineFieldsAndAggs fs as rf =
      \<lparr>caps_aggs = filterAggs as', caps_fields = filterFields fs'\<rparr>"
  by (cases "crossReference fs as rf") (auto simp: combineFieldsAndAggs_def)

lemma getData_caps:
  assumes "getData env p r = (log, Inr caps)"
  shows "caps = \<lparr>caps_aggs = [], caps_fields = []\<rparr> \<or>
         (\<exists>fs' as'. caps = \<lparr>caps_aggs = filterAggs as', caps_fields = filterFields fs'\<rparr>)"
proof -
  from assms have "caps = \<lparr>caps_aggs = [], caps_fields = []\<rparr> \<or>
         (\<exists>fs as rf. caps = combineFieldsAndAggs fs as rf)"
    by (auto simp: getData_def loadAndCombine_def createFields_def loadFieldCaps_def Let_def
        split: if_splits sum.splits option.splits prod.splits)
  then show ?thesis using combineFieldsAndAggs_filtered by metis
qed

subsection \<open>Merging the rollup jobs\<close>

text \<open>The test of \<^verbatim>\<open>find\<close> against \<^verbatim>\<open>null\<close> never succeeds, so the inner loop of
  \<^verbatim>\<open>combineAllRollupFields\<close> pushes nothing. (The entry of the merged map is the array of
  the job itself; as nothing is pushed, the sharing has no effect.)\<close>

lemma mergeAggs_unchanged: "mergeAggs merged aggs = merged"
  by (induction aggs arbitrary: merged) (auto simp: array_find_def split: option.splits)

text \<open>So the merged map looks a field name up as the jobs' maps, one after the other, do:
  the entry of the first job that lists the field.\<close>

lemma mergeField_map_of: "map_of (mergeField rf e) = map_of (rf @ [e])"
proof (cases e)
  case (Pair k aggs)
  show ?thesis
  proof (cases "map_of rf k")
    case None
    then show ?thesis by (simp add: mergeField_def Pair)
  next
    case (Some merged)
    then have "map_of (mergeField rf e) = map_of rf"
      by (simp add: mergeField_def Pair mergeAggs_unchanged update_conv' fun_upd_idem)
    moreover from Some have "map_of (rf @ [e]) = map_of rf"
      by (auto simp: Pair map_add_def fun_eq_iff split: option.splits)
    ultimately show ?thesis by simp
  qed
qed

lemma foldl_mergeField_map_of: "map_of (foldl mergeField rf es) = map_of (rf @ es)"
proof (induction es arbitrary: rf)
  case Nil
  then show ?case by simp
next
  case (Cons e es)
  have "map_of (foldl mergeField (mergeField rf e) es) = map_of (mergeField rf e @ es)"
    by (rule Cons.IH)
  also have "\<dots> = map_of es ++ map_of (mergeField rf e)" by simp
  also have "\<dots> = map_of es ++ map_of (rf @ [e])" by (simp only: mergeField_map_of)
  also have "\<dots> = map_of (rf @ e # es)" by simp
  finally show ?case by simp
qed

lemma foldl_jobs_map_of:
  "map_of (foldl (\<lambda>rollupFields conf. foldl mergeField rollupFields (job_fields conf)) rf jobs) =
     map_of (rf @ concat (map job_fields jobs))"
proof (induction jobs arbitrary: rf)
  case Nil
  then show ?case by simp
next
  case (Cons conf jobs)
  show ?case
    by (simp add: Cons.IH foldl_mergeField_map_of del: map_of_append) (simp add: foldl_mergeField_map_of)
qed

lemma combineAllRollupFields_first_job:
  "map_of (combineAllRollupFields jobs) = map_of (concat (map job_fields jobs))"
  using foldl_jobs_map_of [of "[]" jobs] by (simp add: combineAllRollupFields_def)

lemma getData_nonrollup:
  assumes "getData env p False = (log, Inr caps)"
  shows "\<exists>resp. callFieldCaps env p = Inr resp \<and> log = [FieldCapsCall p] \<and>
           caps = combineFieldsAndAggs (fieldsOfResponse (localeCompare env) resp) (aggregations env) []"
  using assms
  by (auto simp: getData_def loadAndCombine_def createFields_def loadFieldCaps_def Let_def
      split: sum.splits)

lemma getData_rollup:
  assumes "getData env p True = (log, Inr caps)" and "rollupJobs env p = Inr (Some jobs)"
  shows "\<exists>resp. callFieldCaps env (rollupIndexPattern env p) = Inr resp \<and>
           log = [RollupJobsCall p, FieldCapsCall (rollupIndexPattern env p)] \<and>
           caps = combineFieldsAndAggs (fieldsOfResponse (localeCompare env) resp) (aggregations env)
                    (combineAllRollupFields jobs)"
  using assms
  by (auto simp: getData_def loadAndCombine_def createFields_def loadFieldCaps_def Let_def
      split: sum.splits)

lemma caps_fields_combine:
  "caps_fields (combineFieldsAndAggs fs as rf) = filterFields (fst (crossReference fs as rf))"
  "caps_aggs (combineFieldsAndAggs fs as rf) = filterAggs (snd (crossReference fs as rf))"
  by (cases "crossReference fs as rf"; simp add: combineFieldsAndAggs_def)+

lemma fieldOfCaps_aggs: "f \<in> set (fieldOfCaps e) \<Longrightarrow> field_aggs f = Some []"
  by (auto simp: fieldOfCaps_def split: prod.splits list.splits option.splits if_splits)

lemma fieldsOfResponse_aggs: "\<forall>f\<in>set (fieldsOfResponse lc resp). field_aggs f = Some []"
  by (auto simp: fieldsOfResponse_def fieldOfCaps_aggs split: option.splits)

text \<open>What a returned field and a returned aggregation look like.\<close>

lemma in_caps_fields:
  assumes "f \<in> set (caps_fields (combineFieldsAndAggs fs as rf))"
    and "\<forall>x\<in>set fs. field_aggs x = Some []"
  shows "\<exists>k<length fs. field_id f = field_id (fs ! k) \<and> field_type f = field_type (fs ! k) \<and>
           field_aggregatable f = field_aggregatable (fs ! k) \<and>
           field_aggs f = Some (filter (\<lambda>j. linked rf (fs ! k) (as ! j)) [0..<length as])"
proof -
  from assms(1) have "f \<in> set (fst (crossReference fs as rf))"
    by (simp add: caps_fields_combine filterFields_def)
  then obtain k where k: "k < length fs" and f: "f = fst (crossReference fs as rf) ! k"
    by (auto simp: in_set_conv_nth)
  from k assms(2) have "field_aggs (fs ! k) = Some []" by simp
  with k show ?thesis
    unfolding f by (auto simp: crossReference_field_attrs crossReference_field_aggs)
qed

lemma in_caps_aggs:
  assumes "a \<in> set (caps_aggs (combineFieldsAndAggs fs as rf))" and "freshCatalog as"
  shows "\<exists>j<length as. agg_dslName a = agg_dslName (as ! j) \<and> agg_type a = agg_type (as ! j) \<and>
           agg_fields a = Some (filter (\<lambda>i. permitted rf (field_id (fs ! i)) (agg_dslName (as ! j)))
              (targets (getTextAndKeywordFields fs) (getNumericalFields fs) (as ! j))) \<and>
           agg_fields a \<noteq> Some []"
proof -
  from assms(1) have a: "a \<in> set (snd (crossReference fs as rf))"
    and ne: "agg_fields a \<noteq> Some []"
    by (auto simp: caps_fields_combine filterAggs_def split: option.splits)
  then obtain j where j: "j < length as" and aj: "a = snd (crossReference fs as rf) ! j"
    by (auto simp: in_set_conv_nth)
  from j assms(2) have "agg_fields (as ! j) = Some []" by (simp add: freshCatalog_def)
  with j ne show ?thesis
    unfolding aj by (auto simp: crossReference_agg_attrs crossReference_agg_fields)
qed

lemma permitted_nonrollup [simp]: "permitted [] fid d"
  by (simp add: permitted_def)

lemma compatible_not_count: "compatible f a \<Longrightarrow> agg_dslName a \<noteq> ''count''"
  by (auto simp: compatible_def es_constants split: if_splits)

lemma targets_not_count: "targets tk num a \<noteq> [] \<Longrightarrow> agg_dslName a \<noteq> ''count''"
  by (auto simp: targets_def es_constants split: if_splits)

lemma compatible_textOrKeyword:
  assumes "field_type f = ''keyword'' \<or> field_type f = ''text''"
  shows "compatible f a \<longleftrightarrow> agg_type a = METRIC_AGG_TYPE \<and> agg_dslName a = ''cardinality''"
  using assms
  by (auto simp: compatible_def isTextOrKeyword_def isNumerical_def es_constants)

lemma targets_numerical:
  assumes "agg_dslName a \<noteq> ''cardinality''"
    and "i \<in> set (targets (getTextAndKeywordFields fs) (getNumericalFields fs) a)"
  shows "i < length fs \<and>
         (field_type (fs ! i) = ''double'' \<or> field_type (fs ! i) = ''float'' \<or>
          field_type (fs ! i) = ''long'')"
  using assms
  by (auto simp: targets_def getNumericalFields_def es_constants split: if_splits)

lemma crossReference_ids:
  "map field_id (fst (crossReference fs as rf)) = map field_id fs"
  by (rule nth_equalityI) (simp_all add: crossReference_field_attrs)

lemma sorted_wrt_filterFields:
  "sorted_wrt P fs \<Longrightarrow> sorted_wrt P (filterFields fs)"
  by (simp add: filterFields_def sorted_wrt_filter)

lemma sorted_fieldsOfResponse:
  "comparator lc \<Longrightarrow>
   sorted_wrt (\<lambda>a b. lc (field_id a) (field_id b) \<le> 0) (fieldsOfResponse lc resp)"
proof -
  assume c: "comparator lc"
  then have "comparator (\<lambda>a b. lc (field_id a) (field_id b))"
    unfolding comparator_def by blast
  from sorted_array_sort [OF this] show ?thesis
    by (simp add: fieldsOfResponse_def)
qed

lemma sorted_combine:
  assumes "sorted_wrt (\<lambda>a b. lc (field_id a) (field_id b) \<le> 0) fs"
  shows "sorted_wrt (\<lambda>a b. lc (field_id a) (field_id b) \<le> 0)
           (caps_fields (combineFieldsAndAggs fs as rf))"
proof -
  from assms have "sorted_wrt (\<lambda>x y. lc x y \<le> 0) (map field_id fs)"
    by (simp add: sorted_wrt_map)
  then have "sorted_wrt (\<lambda>x y. lc x y \<le> 0) (map field_id (fst (crossReference fs as rf)))"
    by (simp add: crossReference_ids)
  then have "sorted_wrt (\<lambda>a b. lc (field_id a) (field_id b) \<le> 0) (fst (crossReference fs as rf))"
    by (simp add: sorted_wrt_map)
  then show ?thesis
    by (simp add: caps_fields_combine sorted_wrt_filterFields)
qed

subsection \<open>The fields created from a report\<close>

lemma in_fieldOfCaps:
  "f \<in> set (fieldOfCaps (k, fc)) \<longleftrightarrow>
     (\<exists>t. fc \<noteq> [] \<and> cap_type (snd (hd fc)) = Some t \<and> t \<in> set supportedTypes \<and>
          f = \<lparr>field_id = k, field_name = k, field_type = t,
               field_aggregatable = cap_aggregatable (snd (hd fc)), field_aggs = Some []\<rparr>)"
  by (cases fc) (auto simp: fieldOfCaps_def split: option.splits)

lemma set_fieldsOfResponse:
  "set (fieldsOfResponse lc (Some report)) = (\<Union>e\<in>set report. set (fieldOfCaps e))"
  by (simp add: fieldsOfResponse_def)

lemma fieldOfCaps_ids: "f \<in> set (fieldOfCaps e) \<Longrightarrow> field_id f = fst e"
  by (cases e) (auto simp: in_fieldOfCaps)

lemma distinct_fieldOfCaps: "distinct (map field_id (fieldOfCaps e))"
  by (auto simp: fieldOfCaps_def split: prod.splits list.splits option.splits)

lemma distinct_created:
  "distinct (map fst report) \<Longrightarrow> distinct (map field_id (concat (map fieldOfCaps report)))"
proof (induction report)
  case Nil
  then show ?case by simp
next
  case (Cons e report)
  have disj: "field_id f \<noteq> field_id g"
    if f: "f \<in> set (fieldOfCaps e)" and x: "x \<in> set report" and g: "g \<in> set (fieldOfCaps x)"
    for f g x
  proof -
    from f have "field_id f = fst e" by (rule fieldOfCaps_ids)
    moreover from g have "field_id g = fst x" by (rule fieldOfCaps_ids)
    moreover from x Cons.prems have "fst e \<noteq> fst x" by force
    ultimately show ?thesis by simp
  qed
  from Cons have ih: "distinct (map field_id (concat (map fieldOfCaps report)))" by simp
  have "set (map field_id (fieldOfCaps e)) \<inter>
        set (map field_id (concat (map fieldOfCaps report))) = {}"
    using disj by fastforce
  with ih show ?case
    by (simp add: distinct_fieldOfCaps del: set_map)
qed

lemma distinct_array_insert:
  "distinct (map g (array_insert cmp x ys)) = distinct (map g (x # ys))"
  by (induction ys) auto

lemma distinct_array_sort:
  "distinct (map g (array_sort cmp xs)) = distinct (map g xs)"
proof (induction xs)
  case Nil
  then show ?case by (simp add: array_sort_def)
next
  case (Cons x xs)
  have "array_sort cmp (x # xs) = array_insert cmp x (array_sort cmp xs)"
    by (simp add: array_sort_def)
  then show ?case using Cons by (simp add: distinct_array_insert)
qed

subsection \<open>Independence of the aggregatable flags\<close>

lemma erase_simps [simp]:
  "field_id (eraseAggregatable f) = field_id f"
  "field_type (eraseAggregatable f) = field_type f"
  "field_aggs (eraseAggregatable f) = field_aggs f"
  by (simp_all add: eraseAggregatable_def)

lemma erase_fieldOfCaps:
  assumes "fst e1 = fst e2"
    and "list_all2 (\<lambda>v1 v2. fst v1 = fst v2 \<and> cap_type (snd v1) = cap_type (snd v2)) (snd e1) (snd e2)"
  shows "map eraseAggregatable (fieldOfCaps e1) = map eraseAggregatable (fieldOfCaps e2)"
proof -
  obtain k fc1 fc2 where e: "e1 = (k, fc1)" "e2 = (k, fc2)"
    using assms(1) by (cases e1; cases e2) auto
  from assms(2) show ?thesis
    unfolding e
    by (cases fc1; cases fc2)
       (auto simp: fieldOfCaps_def eraseAggregatable_def split: option.splits)
qed

lemma erase_created:
  "sameTypes r1 r2 \<Longrightarrow>
   map eraseAggregatable (concat (map fieldOfCaps r1)) =
   map eraseAggregatable (concat (map fieldOfCaps r2))"
  unfolding sameTypes_def
  by (induction r1 r2 rule: list_all2_induct) (simp_all add: erase_fieldOfCaps)

lemma erase_array_sort:
  "map eraseAggregatable (array_sort (\<lambda>a b. lc (field_id a) (field_id b)) xs) =
   array_sort (\<lambda>a b. lc (field_id a) (field_id b)) (map eraseAggregatable xs)"
  by (rule array_sort_map [symmetric]) simp

lemma erase_fieldsOfResponse:
  assumes "rel_option sameTypes r1 r2"
  shows "map eraseAggregatable (fieldsOfResponse lc r1) =
         map eraseAggregatable (fieldsOfResponse lc r2)"
  using assms
  by (cases r1; cases r2) (simp_all add: fieldsOfResponse_def erase_array_sort erase_created)

lemma erase_linkField:
  "eraseAggregatable (linkField rf j d f) = linkField rf j d (eraseAggregatable f)"
  by (simp add: linkField_def pushAgg_def eraseAggregatable_def split: option.splits)

lemma erase_fold_linkField:
  "eraseAggregatable (fold (\<lambda>j f. if C j then linkField rf j (D j) f else f) js f) =
   fold (\<lambda>j f. if C j then linkField rf j (D j) f else f) js (eraseAggregatable f)"
  by (induction js arbitrary: f) (simp_all add: erase_linkField)

lemma erase_getters [simp]:
  "getTextAndKeywordFields (map eraseAggregatable fs) = getTextAndKeywordFields fs"
  "getNumericalFields (map eraseAggregatable fs) = getNumericalFields fs"
  by (auto simp: getTextAndKeywordFields_def getNumericalFields_def intro!: filter_cong)

text \<open>The cross-referencing commutes with erasing the flags.\<close>

lemma erase_crossReference_fst:
  "fst (crossReference (map eraseAggregatable fs) as rf) =
   map eraseAggregatable (fst (crossReference fs as rf))"
  by (rule nth_equalityI)
     (simp_all add: crossReference_field_nth erase_fold_linkField)

lemma erase_crossReference_snd:
  "snd (crossReference (map eraseAggregatable fs) as rf) = snd (crossReference fs as rf)"
proof (rule nth_equalityI)
  show "length (snd (crossReference (map eraseAggregatable fs) as rf)) =
        length (snd (crossReference fs as rf))" by simp
next
  fix j assume "j < length (snd (crossReference (map eraseAggregatable fs) as rf))"
  then have j: "j < length as" by simp
  let ?T = "targets (getTextAndKeywordFields fs) (getNumericalFields fs) (as ! j)"
  have "fold (\<lambda>i a. linkAggTo rf (field_id (map eraseAggregatable fs ! i)) i a) ?T (as ! j) =
        fold (\<lambda>i a. linkAggTo rf (field_id (fs ! i)) i a) ?T (as ! j)"
    by (rule fold_cong) (auto simp: set_targets)
  then show "snd (crossReference (map eraseAggregatable fs) as rf) ! j =
             snd (crossReference fs as rf) ! j"
    by (simp add: crossReference_agg_nth [OF j])
qed

lemma erase_filterFields:
  "filterFields (map eraseAggregatable fs) = map eraseAggregatable (filterFields fs)"
  by (simp add: filterFields_def filter_map comp_def)

lemma erase_combine:
  "caps_aggs (combineFieldsAndAggs (map eraseAggregatable fs) as rf) =
     caps_aggs (combineFieldsAndAggs fs as rf)"
  "caps_fields (combineFieldsAndAggs (map eraseAggregatable fs) as rf) =
     map eraseAggregatable (caps_fields (combineFieldsAndAggs fs as rf))"
  by (simp_all add: caps_fields_combine erase_crossReference_fst erase_crossReference_snd
      erase_filterFields)

lemma combine_modulo_aggregatable:
  assumes "map eraseAggregatable fs1 = map eraseAggregatable fs2"
  shows "caps_aggs (combineFieldsAndAggs fs1 as rf) = caps_aggs (combineFieldsAndAggs fs2 as rf)"
    and "map eraseAggregatable (caps_fields (combineFieldsAndAggs fs1 as rf)) =
         map eraseAggregatable (caps_fields (combineFieldsAndAggs fs2 as rf))"
  using erase_combine [of fs1 as rf] erase_combine [of fs2 as rf] assms by simp_all

lemma getData_with_response:
  "getData (env\<lparr>callFieldCaps := \<lambda>p. Inr r\<rparr>) p isRollup =
     (if isRollup then
        (case rollupJobs env p of
           Inl e \<Rightarrow> ([RollupJobsCall p], Inl e)
         | Inr None \<Rightarrow> ([RollupJobsCall p], Inr \<lparr>caps_aggs = [], caps_fields = []\<rparr>)
         | Inr (Some jobs) \<Rightarrow>
             ([RollupJobsCall p, FieldCapsCall (rollupIndexPattern env p)],
              Inr (combineFieldsAndAggs (fieldsOfResponse (localeCompare env) r) (aggregations env)
                     (combineAllRollupFields jobs))))
      else ([FieldCapsCall p],
            Inr (combineFieldsAndAggs (fieldsOfResponse (localeCompare env) r) (aggregations env) [])))"
  by (simp add: getData_def loadAndCombine_def createFields_def loadFieldCaps_def Let_def
      split: sum.splits option.splits)

lemma compatible_numerical:
  assumes "field_type f = ''double'' \<or> field_type f = ''float'' \<or> field_type f = ''long''"
    and "agg_type a = METRIC_AGG_TYPE" and "agg_dslName a \<noteq> ''count''"
  shows "compatible f a"
  using assms by (auto simp: compatible_def isNumerical_def es_constants)

lemma linked_field_retained:
  assumes k: "k < length fs" and e: "field_aggs (fs ! k) = Some []"
    and j: "j < length as" and l: "linked rf (fs ! k) (as ! j)"
  shows "\<exists>f\<in>set (caps_fields (combineFieldsAndAggs fs as rf)).
           field_id f = field_id (fs ! k) \<and> field_aggregatable f = field_aggregatable (fs ! k) \<and>
           (\<exists>js. field_aggs f = Some js \<and> j \<in> set js)"
proof -
  let ?f = "fst (crossReference fs as rf) ! k"
  have ag: "field_aggs ?f = Some (filter (\<lambda>j. linked rf (fs ! k) (as ! j)) [0..<length as])"
    by (simp add: crossReference_field_aggs [OF k] e)
  from j l have mem: "j \<in> set (filter (\<lambda>j. linked rf (fs ! k) (as ! j)) [0..<length as])"
    by simp
  then have ne: "filter (\<lambda>j. linked rf (fs ! k) (as ! j)) [0..<length as] \<noteq> []"
    by (metis empty_iff empty_set)
  from k have "?f \<in> set (fst (crossReference fs as rf))" by simp
  with ag ne have "?f \<in> set (caps_fields (combineFieldsAndAggs fs as rf))"
    by (simp add: caps_fields_combine filterFields_def)
  moreover have "field_id ?f = field_id (fs ! k)" "field_aggregatable ?f = field_aggregatable (fs ! k)"
    by (simp_all add: crossReference_field_attrs [OF k])
  ultimately show ?thesis using ag mem by blast
qed

subsection \<open>The gate with a non-empty rollup map\<close>

lemma permitted_rollup:
  assumes "rf \<noteq> []"
  shows "permitted rf fid d \<longleftrightarrow>
           (\<exists>entries. map_of rf fid = Some entries \<and> d \<in> RollupAgg.agg ` set entries)"
proof -
  have "truthy (array_find p xs) \<longleftrightarrow> (\<exists>x\<in>set xs. p x)" for p :: "RollupAgg \<Rightarrow> bool" and xs
    by (induction xs) (auto simp: array_find_def)
  with assms show ?thesis
    by (auto simp: permitted_def split: option.splits)
qed

text \<open>In rollup mode with a merged map that is not empty, a field and an aggregation are
  linked only if the merged map has the field name and lists the DSL name for it.\<close>

lemma rollup_gate_nonempty:
  assumes "freshCatalog (aggregations env)"
    and "rollupJobs env indexPattern = Inr (Some jobs)"
    and "combineAllRollupFields jobs \<noteq> []"
    and "getData env indexPattern True = (log, Inr caps)"
    and "callFieldCaps env (rollupIndexPattern env indexPattern) = Inr resp"
  shows "(\<forall>f\<in>set (caps_fields caps). \<exists>js. field_aggs f = Some js \<and>
            (\<forall>j\<in>set js. \<exists>entries.
                map_of (combineAllRollupFields jobs) (field_id f) = Some entries \<and>
                agg_dslName (aggregations env ! j) \<in> RollupAgg.agg ` set entries)) \<and>
         (\<forall>a\<in>set (caps_aggs caps). \<exists>is. agg_fields a = Some is \<and>
            (\<forall>i\<in>set is. \<exists>entries.
                map_of (combineAllRollupFields jobs)
                  (field_id (fieldsOfResponse (localeCompare env) resp ! i)) = Some entries \<and>
                agg_dslName a \<in> RollupAgg.agg ` set entries))"
proof -
  let ?fs = "fieldsOfResponse (localeCompare env) resp"
  let ?as = "aggregations env"
  let ?rf = "combineAllRollupFields jobs"
  from getData_rollup [OF assms(4) assms(2)] assms(5)
  have caps: "caps = combineFieldsAndAggs ?fs ?as ?rf" by auto
  note gate = permitted_rollup [OF assms(3)]
  have A: "\<exists>js. field_aggs f = Some js \<and>
            (\<forall>j\<in>set js. \<exists>entries. map_of ?rf (field_id f) = Some entries \<and>
                agg_dslName (?as ! j) \<in> RollupAgg.agg ` set entries)"
    if "f \<in> set (caps_fields caps)" for f
  proof -
    from in_caps_fields [OF that [unfolded caps] fieldsOfResponse_aggs] obtain k where
      id: "field_id f = field_id (?fs ! k)"
      and ag: "field_aggs f = Some (filter (\<lambda>j. linked ?rf (?fs ! k) (?as ! j)) [0..<length ?as])"
      by blast
    show ?thesis unfolding ag id by (simp add: linked_def gate)
  qed
  have B: "\<exists>is. agg_fields a = Some is \<and>
            (\<forall>i\<in>set is. \<exists>entries. map_of ?rf (field_id (?fs ! i)) = Some entries \<and>
                agg_dslName a \<in> RollupAgg.agg ` set entries)"
    if "a \<in> set (caps_aggs caps)" for a
  proof -
    from in_caps_aggs [OF that [unfolded caps] assms(1)] obtain j where
      dj: "agg_dslName a = agg_dslName (?as ! j)"
      and fl: "agg_fields a = Some (filter (\<lambda>i. permitted ?rf (field_id (?fs ! i)) (agg_dslName (?as ! j)))
              (targets (getTextAndKeywordFields ?fs) (getNumericalFields ?fs) (?as ! j)))"
      by blast
    show ?thesis unfolding fl dj by (simp add: gate)
  qed
  from A B show ?thesis by blast
qed

subsection \<open>The scenario\<close>

lemma scenario_run:
  "getData scenarioEnv ''idx'' False = ([FieldCapsCall ''idx''], Inr scenarioCaps)"
  by (simp add: service_defs scenario_defs scenarioCaps_def scenarioFields_def es_constants Let_def)

lemma scenario_fresh: "freshCatalog (aggregations scenarioEnv)"
  by (simp add: freshCatalog_def scenario_defs)

text \<open>The rollup scenario of the spec: with the rollup map \<^verbatim>\<open>{ age: [{agg: 'avg'}] }\<close>
  only \<^verbatim>\<open>age\<close> and avg are returned.\<close>

lemma rollup_scenario:
  "getData avgRollupEnv ''idx'' True =
     ([RollupJobsCall ''idx'', FieldCapsCall ''idx''],
      Inr \<lparr>caps_aggs = [aggAvg\<lparr>agg_fields := Some [0]\<rparr>],
           caps_fields = [(scenarioFields ! 0)\<lparr>field_aggs := Some [0]\<rparr>]\<rparr>)"
  by (simp add: service_defs scenario_defs scenarioFields_def avgRollupEnv_def es_constants Let_def)

section \<open>The statements of the specification\<close>

text \<open>
  In the statements, a reference \<open>j\<close> in the \<open>field_aggs\<close> of a returned field denotes
  the aggregation at position \<open>j\<close> of the catalog (\<open>aggregations env ! j\<close>: the clone keeps
  the positions, and \<open>crossReference_agg_attrs\<close> says that the DSL name and the category
  of an aggregation never change). A reference \<open>i\<close> in the \<open>agg_fields\<close> of a returned
  aggregation denotes the field at position \<open>i\<close> of the sorted list that
  \<^verbatim>\<open>createFields\<close> returned (\<open>fieldsOfResponse (localeCompare env) resp ! i\<close>).
\<close>

subsection \<open>C1: the rollup gate\<close>

text \<open>
  C1 says that in rollup mode (\<^verbatim>\<open>isRollup\<close> true, a job list that is not \<^verbatim>\<open>null\<close>) a
  field and an aggregation are linked only if the merged rollup map has the field name
  and lists the DSL name of the aggregation for it, also when the merged map is empty.
  The service does not do this for an empty merged map: \<^verbatim>\<open>mixFactory\<close> derives its own
  \<^verbatim>\<open>isRollup\<close> from the number of keys of the map, so a rollup request whose jobs list no
  field is cross-referenced as a non-rollup request. With one job without fields, the
  merged map is empty and the result links \<^verbatim>\<open>age\<close> to avg and cardinality and \<^verbatim>\<open>name\<close> to
  cardinality, exactly as the non-rollup scenario does.
\<close>

theorem C1_empty_merged_map:
  "rollupJobs emptyRollupEnv ''idx'' = Inr (Some [emptyRollupJob]) \<and>
   combineAllRollupFields [emptyRollupJob] = [] \<and>
   getData emptyRollupEnv ''idx'' True =
     ([RollupJobsCall ''idx'', FieldCapsCall ''idx''], Inr scenarioCaps)"
  by (simp add: service_defs scenario_defs scenarioCaps_def scenarioFields_def emptyRollupEnv_def
      emptyRollupJob_def es_constants Let_def)

subsection \<open>C2: merging the rollup jobs\<close>

text \<open>
  C2 says that the merged map holds, for each field name, the union of the aggregation
  entries of all jobs, so that an aggregation listed for a field only in a later job is
  in the merged entry. The service compares the value of \<^verbatim>\<open>find\<close> with \<^verbatim>\<open>null\<close>, which
  \<^verbatim>\<open>find\<close> never returns, so nothing is ever pushed (\<open>mergeAggs_unchanged\<close>) and the
  merged entry of a field is the entry of the first job that lists it. With a first job
  that lists avg for \<^verbatim>\<open>price\<close> and a later job that lists avg and max for it, max is not
  in the merged entry.
\<close>

theorem C2_later_job_ignored:
  "combineAllRollupFields [firstJob, laterJob] = [(''price'', [RollupAgg ''avg''])]"
  by (simp add: combineAllRollupFields_def mergeField_def firstJob_def laterJob_def array_find_def)

subsection \<open>C3: mutual filtering\<close>

text \<open>
  C3: for every invocation, rollup or not, that returns a result, every field of the
  returned field list has a non-empty list of aggregations and every aggregation of the
  returned aggregation list has a non-empty list of fields.
\<close>

theorem C3_mutual_filtering:
  assumes "getData env indexPattern isRollup = (log, Inr caps)"
  shows "(\<forall>f\<in>set (caps_fields caps). \<exists>js. field_aggs f = Some js \<and> js \<noteq> []) \<and>
         (\<forall>a\<in>set (caps_aggs caps). \<exists>is. agg_fields a = Some is \<and> is \<noteq> [])"
  using getData_caps [OF assms]
  by (auto simp: filterFields_def filterAggs_def split: option.splits)

theorem C3_mutual_filtering_witness:
  "getData scenarioEnv ''idx'' False = ([FieldCapsCall ''idx''], Inr scenarioCaps) \<and>
   map field_aggs (caps_fields scenarioCaps) = [Some [0, 1], Some [1]] \<and>
   map agg_fields (caps_aggs scenarioCaps) = [Some [0], Some [1, 0]]"
  using C3_mutual_filtering [OF scenario_run] scenario_run
  by (simp add: scenarioCaps_def scenarioFields_def scenario_defs)

subsection \<open>C4: a rollup index without rollup jobs\<close>

text \<open>
  C4: when \<^verbatim>\<open>isRollup\<close> is true and the rollup service returns \<^verbatim>\<open>null\<close>, the operation
  succeeds with exactly \<^verbatim>\<open>{ fields: [], aggs: [] }\<close>, and the only collaborator it has
  asked is the rollup service: the field capabilities are not fetched.
\<close>

theorem C4_no_rollup_jobs:
  assumes "rollupJobs env indexPattern = Inr None"
  shows "getData env indexPattern True =
           ([RollupJobsCall indexPattern], Inr \<lparr>caps_aggs = [], caps_fields = []\<rparr>)"
  using assms by (simp add: getData_def)

theorem C4_no_rollup_jobs_witness:
  "rollupJobs unreachableEnv ''idx'' = Inr None \<and>
   callFieldCaps unreachableEnv ''idx'' = Inl (RequestFailed ''unreachable'') \<and>
   getData unreachableEnv ''idx'' True =
     ([RollupJobsCall ''idx''], Inr \<lparr>caps_aggs = [], caps_fields = []\<rparr>)"
proof -
  have h: "rollupJobs unreachableEnv ''idx'' = Inr None"
    by (simp add: unreachableEnv_def scenarioEnv_def)
  from C4_no_rollup_jobs [OF h] h show ?thesis
    by (simp add: unreachableEnv_def scenarioEnv_def)
qed

subsection \<open>C5: the scenario of the spec\<close>

text \<open>
  C5, amended: for the non-rollup request whose capability report is
  \<^verbatim>\<open>{ age: {type: long, aggregatable: true}, name: {type: keyword, aggregatable: true} }\<close>
  and whose catalog holds the metric aggregations avg, cardinality and count in this
  order, the result is the fields \<^verbatim>\<open>age\<close> with the aggregations avg, cardinality and
  \<^verbatim>\<open>name\<close> with the aggregation cardinality, and the aggregations avg with the field
  \<^verbatim>\<open>age\<close> and cardinality with the fields \<^verbatim>\<open>name\<close>, \<^verbatim>\<open>age\<close> in this order (the text and
  keyword fields are linked before the numerical ones); count is absent. The locale
  must order \<^verbatim>\<open>age\<close> before \<^verbatim>\<open>name\<close>. The last two conjuncts say what the references
  denote.
\<close>

theorem C5_scenario:
  assumes "callFieldCaps env indexPattern = Inr (Some scenarioReport)"
    and "aggregations env = scenarioCatalog"
    and "localeCompare env ''age'' ''name'' \<le> 0"
  shows "getData env indexPattern False = ([FieldCapsCall indexPattern], Inr scenarioCaps) \<and>
         map field_id (fieldsOfResponse (localeCompare env) (Some scenarioReport)) = [''age'', ''name''] \<and>
         map agg_dslName (aggregations env) = [''avg'', ''cardinality'', ''count'']"
  using assms
  by (simp add: getData_def loadAndCombine_def createFields_def loadFieldCaps_def
      fieldsOfResponse_def fieldOfCaps_def supportedTypes_def array_sort_def
      combineFieldsAndAggs_def crossReference_def linkAgg_def mixFactory_def
      getTextAndKeywordFields_def getNumericalFields_def filterFields_def filterAggs_def
      scenarioReport_def scenarioCatalog_def aggAvg_def aggCardinality_def aggCount_def
      scenarioCaps_def scenarioFields_def es_constants Let_def)

theorem C5_scenario_witness:
  "callFieldCaps scenarioEnv ''idx'' = Inr (Some scenarioReport) \<and>
   aggregations scenarioEnv = scenarioCatalog \<and>
   localeCompare scenarioEnv ''age'' ''name'' \<le> 0 \<and>
   getData scenarioEnv ''idx'' False = ([FieldCapsCall ''idx''], Inr scenarioCaps)"
proof -
  have h1: "callFieldCaps scenarioEnv ''idx'' = Inr (Some scenarioReport)"
    and h2: "aggregations scenarioEnv = scenarioCatalog"
    and h3: "localeCompare scenarioEnv ''age'' ''name'' \<le> 0"
    by (simp_all add: scenarioEnv_def codeCompare_def)
  from C5_scenario [OF h1 h2 h3] h1 h2 h3 show ?thesis by simp
qed

text \<open>
  C5 as the spec states it gives cardinality the fields \<^verbatim>\<open>age\<close>, \<^verbatim>\<open>name\<close> in this order.
  The service does not return that.
\<close>

theorem C5_scenario_counterexample:
  "getData scenarioEnv ''idx'' False \<noteq> ([FieldCapsCall ''idx''], Inr sortedLinksCaps)"
  by (simp add: service_defs scenario_defs sortedLinksCaps_def scenarioFields_def es_constants
      Let_def)

subsection \<open>C6: count is never linked\<close>

text \<open>
  C6: for every non-rollup invocation, every capability report and every catalog whose
  aggregations start without fields, no aggregation list of a returned field refers to
  an aggregation whose DSL name is count, and no returned aggregation has the DSL name
  count.
\<close>

theorem C6_count_never_linked:
  assumes "freshCatalog (aggregations env)"
    and "getData env indexPattern False = (log, Inr caps)"
  shows "(\<forall>f\<in>set (caps_fields caps). \<exists>js. field_aggs f = Some js \<and>
            (\<forall>j\<in>set js. j < length (aggregations env) \<and>
                          agg_dslName (aggregations env ! j) \<noteq> ''count'')) \<and>
         (\<forall>a\<in>set (caps_aggs caps). agg_dslName a \<noteq> ''count'')"
proof -
  from getData_nonrollup [OF assms(2)] obtain resp where
    caps: "caps = combineFieldsAndAggs (fieldsOfResponse (localeCompare env) resp) (aggregations env) []"
    by blast
  have A: "\<exists>js. field_aggs f = Some js \<and>
            (\<forall>j\<in>set js. j < length (aggregations env) \<and>
                          agg_dslName (aggregations env ! j) \<noteq> ''count'')"
    if "f \<in> set (caps_fields caps)" for f
    using in_caps_fields [OF that [unfolded caps] fieldsOfResponse_aggs]
    by (auto simp: linked_def dest: compatible_not_count)
  have B: "agg_dslName a \<noteq> ''count''" if "a \<in> set (caps_aggs caps)" for a
  proof -
    from in_caps_aggs [OF that [unfolded caps] assms(1)] obtain j where
      j: "agg_dslName a = agg_dslName (aggregations env ! j)"
      and t: "targets (getTextAndKeywordFields (fieldsOfResponse (localeCompare env) resp))
                (getNumericalFields (fieldsOfResponse (localeCompare env) resp))
                (aggregations env ! j) \<noteq> []"
      by auto
    from targets_not_count [OF t] j show ?thesis by simp
  qed
  from A B show ?thesis by blast
qed

theorem C6_count_never_linked_witness:
  "freshCatalog (aggregations scenarioEnv) \<and>
   getData scenarioEnv ''idx'' False = ([FieldCapsCall ''idx''], Inr scenarioCaps) \<and>
   aggCount \<in> set (aggregations scenarioEnv) \<and>
   map agg_dslName (caps_aggs scenarioCaps) = [''avg'', ''cardinality''] \<and>
   list_all (\<lambda>a. agg_dslName a \<noteq> ''count'') (caps_aggs scenarioCaps)"
  using C6_count_never_linked [OF scenario_fresh scenario_run] scenario_fresh scenario_run
  by (simp add: scenarioCaps_def scenario_defs es_constants)

subsection \<open>C7: text and keyword fields\<close>

text \<open>
  C7: for every non-rollup invocation (with a catalog whose aggregations start without
  fields), a returned field of type keyword or text is linked to every metric
  aggregation of the catalog whose DSL name is cardinality and to no other aggregation;
  and a returned aggregation whose DSL name is not cardinality has only fields of type
  double, float or long.
\<close>

theorem C7_text_and_keyword_fields:
  assumes "freshCatalog (aggregations env)"
    and "getData env indexPattern False = (log, Inr caps)"
    and "callFieldCaps env indexPattern = Inr resp"
  shows "(\<forall>f\<in>set (caps_fields caps).
            field_type f = ''keyword'' \<or> field_type f = ''text'' \<longrightarrow>
            (\<exists>js. field_aggs f = Some js \<and>
               (\<forall>j<length (aggregations env).
                  agg_type (aggregations env ! j) = METRIC_AGG_TYPE \<and>
                  agg_dslName (aggregations env ! j) = ''cardinality'' \<longrightarrow> j \<in> set js) \<and>
               (\<forall>j\<in>set js. j < length (aggregations env) \<and>
                  agg_type (aggregations env ! j) = METRIC_AGG_TYPE \<and>
                  agg_dslName (aggregations env ! j) = ''cardinality''))) \<and>
         (\<forall>a\<in>set (caps_aggs caps).
            agg_dslName a \<noteq> ''cardinality'' \<longrightarrow>
            (\<exists>is. agg_fields a = Some is \<and>
               (\<forall>i\<in>set is.
                  i < length (fieldsOfResponse (localeCompare env) resp) \<and>
                  (field_type (fieldsOfResponse (localeCompare env) resp ! i) = ''double'' \<or>
                   field_type (fieldsOfResponse (localeCompare env) resp ! i) = ''float'' \<or>
                   field_type (fieldsOfResponse (localeCompare env) resp ! i) = ''long''))))"
proof -
  let ?fs = "fieldsOfResponse (localeCompare env) resp"
  let ?as = "aggregations env"
  from getData_nonrollup [OF assms(2)] assms(3)
  have caps: "caps = combineFieldsAndAggs ?fs ?as []" by auto
  have A: "\<exists>js. field_aggs f = Some js \<and>
               (\<forall>j<length ?as. agg_type (?as ! j) = METRIC_AGG_TYPE \<and>
                  agg_dslName (?as ! j) = ''cardinality'' \<longrightarrow> j \<in> set js) \<and>
               (\<forall>j\<in>set js. j < length ?as \<and> agg_type (?as ! j) = METRIC_AGG_TYPE \<and>
                  agg_dslName (?as ! j) = ''cardinality'')"
    if f: "f \<in> set (caps_fields caps)" and t: "field_type f = ''keyword'' \<or> field_type f = ''text''"
    for f
  proof -
    from in_caps_fields [OF f [unfolded caps] fieldsOfResponse_aggs] obtain k where
      ty: "field_type f = field_type (?fs ! k)"
      and ag: "field_aggs f = Some (filter (\<lambda>j. linked [] (?fs ! k) (?as ! j)) [0..<length ?as])"
      by blast
    from t ty have t': "field_type (?fs ! k) = ''keyword'' \<or> field_type (?fs ! k) = ''text''"
      by simp
    show ?thesis
      unfolding ag by (simp add: linked_def compatible_textOrKeyword [OF t'])
  qed
  have B: "\<exists>is. agg_fields a = Some is \<and>
               (\<forall>i\<in>set is. i < length ?fs \<and>
                  (field_type (?fs ! i) = ''double'' \<or> field_type (?fs ! i) = ''float'' \<or>
                   field_type (?fs ! i) = ''long''))"
    if a: "a \<in> set (caps_aggs caps)" and d: "agg_dslName a \<noteq> ''cardinality''" for a
  proof -
    from in_caps_aggs [OF a [unfolded caps] assms(1)] obtain j where
      dj: "agg_dslName a = agg_dslName (?as ! j)"
      and fl: "agg_fields a = Some (filter (\<lambda>i. permitted [] (field_id (?fs ! i)) (agg_dslName (?as ! j)))
              (targets (getTextAndKeywordFields ?fs) (getNumericalFields ?fs) (?as ! j)))"
      by blast
    from d dj have d': "agg_dslName (?as ! j) \<noteq> ''cardinality''" by simp
    show ?thesis
      unfolding fl using targets_numerical [OF d'] by simp
  qed
  from A B show ?thesis by blast
qed

theorem C7_text_and_keyword_fields_witness:
  "freshCatalog (aggregations scenarioEnv) \<and>
   getData scenarioEnv ''idx'' False = ([FieldCapsCall ''idx''], Inr scenarioCaps) \<and>
   callFieldCaps scenarioEnv ''idx'' = Inr (Some scenarioReport) \<and>
   field_type (caps_fields scenarioCaps ! 1) = ''keyword'' \<and>
   field_aggs (caps_fields scenarioCaps ! 1) = Some [1] \<and>
   agg_dslName (aggregations scenarioEnv ! 1) = ''cardinality''"
proof -
  have h: "callFieldCaps scenarioEnv ''idx'' = Inr (Some scenarioReport)"
    by (simp add: scenarioEnv_def)
  from C7_text_and_keyword_fields [OF scenario_fresh scenario_run h] scenario_fresh scenario_run h
  show ?thesis
    by (simp add: scenarioCaps_def scenarioFields_def scenario_defs es_constants)
qed

subsection \<open>C8: the returned fields are sorted\<close>

text \<open>
  C8: for every invocation that returns a result and every capability report, the
  returned field list is in ascending order of the field identifiers under the
  locale-aware comparison \<^verbatim>\<open>localeCompare\<close>, which orders the strings.
\<close>

theorem C8_fields_sorted:
  assumes "comparator (localeCompare env)"
    and "getData env indexPattern isRollup = (log, Inr caps)"
  shows "sorted_wrt (\<lambda>a b. localeCompare env (field_id a) (field_id b) \<le> 0) (caps_fields caps)"
proof -
  from assms(2) have "caps = \<lparr>caps_aggs = [], caps_fields = []\<rparr> \<or>
      (\<exists>resp rf. caps = combineFieldsAndAggs (fieldsOfResponse (localeCompare env) resp)
                          (aggregations env) rf)"
    by (auto simp: getData_def loadAndCombine_def createFields_def loadFieldCaps_def Let_def
        split: if_splits sum.splits option.splits)
  then show ?thesis
    using sorted_combine [OF sorted_fieldsOfResponse [OF assms(1)]] by auto
qed

theorem C8_fields_sorted_witness:
  "comparator (localeCompare scenarioEnv) \<and>
   getData scenarioEnv ''idx'' False = ([FieldCapsCall ''idx''], Inr scenarioCaps) \<and>
   map field_id (caps_fields scenarioCaps) = [''age'', ''name''] \<and>
   sorted_wrt (\<lambda>a b. localeCompare scenarioEnv (field_id a) (field_id b) \<le> 0)
     (caps_fields scenarioCaps)"
proof -
  have h: "comparator (localeCompare scenarioEnv)"
    using comparator_codeCompare by (simp add: scenarioEnv_def)
  from C8_fields_sorted [OF h scenario_run] h scenario_run show ?thesis
    by (simp add: scenarioCaps_def scenarioFields_def)
qed

subsection \<open>C9: which fields are created\<close>

text \<open>
  C9: for every capability report (an object, so its field names are distinct), the
  fetch of the report is the only thing that can fail; a field name of the report yields
  a \<open>Field\<close> exactly when the report has at least one type variant for it and the type of
  the first variant is one of date, keyword, text, double, integer, float, long, byte,
  half_float, scaled_float, short. Every other field is dropped without an error. A
  created field has the type and the \<^verbatim>\<open>aggregatable\<close> flag of that first variant, and
  no field name yields two fields.
\<close>

theorem C9_supported_fields:
  assumes "callFieldCaps env indexPattern = Inr (Some report)"
    and "distinct (map fst report)"
  shows "\<exists>flds. createFields env indexPattern log = (log @ [FieldCapsCall indexPattern], Inr flds) \<and>
     (\<forall>k. (\<exists>f\<in>set flds. field_id f = k) \<longleftrightarrow>
           (\<exists>variants t. map_of report k = Some variants \<and> variants \<noteq> [] \<and>
              cap_type (snd (hd variants)) = Some t \<and>
              t \<in> {''date'', ''keyword'', ''text'', ''double'', ''integer'', ''float'', ''long'',
                   ''byte'', ''half_float'', ''scaled_float'', ''short''})) \<and>
     (\<forall>f\<in>set flds. \<exists>variants. map_of report (field_id f) = Some variants \<and> variants \<noteq> [] \<and>
           cap_type (snd (hd variants)) = Some (field_type f) \<and>
           field_aggregatable f = cap_aggregatable (snd (hd variants))) \<and>
     distinct (map field_id flds)"
proof -
  let ?flds = "fieldsOfResponse (localeCompare env) (Some report)"
  have run: "createFields env indexPattern log = (log @ [FieldCapsCall indexPattern], Inr ?flds)"
    using assms(1) by (simp add: createFields_def loadFieldCaps_def)
  have sup: "set supportedTypes =
      {''date'', ''keyword'', ''text'', ''double'', ''integer'', ''float'', ''long'',
       ''byte'', ''half_float'', ''scaled_float'', ''short''}"
    by (simp add: supportedTypes_def es_constants)
  have mem: "\<And>k fc. (k, fc) \<in> set report \<longleftrightarrow> map_of report k = Some fc"
    using assms(2) by (auto dest: map_of_SomeD)
  have A: "(\<exists>f\<in>set ?flds. field_id f = k) \<longleftrightarrow>
           (\<exists>variants t. map_of report k = Some variants \<and> variants \<noteq> [] \<and>
              cap_type (snd (hd variants)) = Some t \<and>
              t \<in> {''date'', ''keyword'', ''text'', ''double'', ''integer'', ''float'', ''long'',
                   ''byte'', ''half_float'', ''scaled_float'', ''short''})" for k
  proof
    assume "\<exists>f\<in>set ?flds. field_id f = k"
    then obtain f e where e: "e \<in> set report" and f: "f \<in> set (fieldOfCaps e)" and k: "field_id f = k"
      unfolding set_fieldsOfResponse by blast
    obtain k' fc where e': "e = (k', fc)" by (cases e)
    from f k have "k' = k" by (auto simp: e' in_fieldOfCaps)
    with e f show "\<exists>variants t. map_of report k = Some variants \<and> variants \<noteq> [] \<and>
              cap_type (snd (hd variants)) = Some t \<and>
              t \<in> {''date'', ''keyword'', ''text'', ''double'', ''integer'', ''float'', ''long'',
                   ''byte'', ''half_float'', ''scaled_float'', ''short''}"
      unfolding sup [symmetric] mem [symmetric] e' by (auto simp: in_fieldOfCaps)
  next
    assume "\<exists>variants t. map_of report k = Some variants \<and> variants \<noteq> [] \<and>
              cap_type (snd (hd variants)) = Some t \<and>
              t \<in> {''date'', ''keyword'', ''text'', ''double'', ''integer'', ''float'', ''long'',
                   ''byte'', ''half_float'', ''scaled_float'', ''short''}"
    then obtain variants t where v: "(k, variants) \<in> set report" "variants \<noteq> []"
      "cap_type (snd (hd variants)) = Some t" "t \<in> set supportedTypes"
      unfolding sup [symmetric] mem [symmetric] by blast
    then have "\<lparr>field_id = k, field_name = k, field_type = t,
               field_aggregatable = cap_aggregatable (snd (hd variants)), field_aggs = Some []\<rparr>
               \<in> set (fieldOfCaps (k, variants))"
      by (simp add: in_fieldOfCaps)
    with v(1) show "\<exists>f\<in>set ?flds. field_id f = k"
      unfolding set_fieldsOfResponse by force
  qed
  have B: "\<exists>variants. map_of report (field_id f) = Some variants \<and> variants \<noteq> [] \<and>
           cap_type (snd (hd variants)) = Some (field_type f) \<and>
           field_aggregatable f = cap_aggregatable (snd (hd variants))"
    if "f \<in> set ?flds" for f
  proof -
    from that obtain e where e: "e \<in> set report" and f: "f \<in> set (fieldOfCaps e)"
      unfolding set_fieldsOfResponse by blast
    obtain k' fc where e': "e = (k', fc)" by (cases e)
    from f obtain t where t: "fc \<noteq> []" "cap_type (snd (hd fc)) = Some t"
      and fr: "f = \<lparr>field_id = k', field_name = k', field_type = t,
               field_aggregatable = cap_aggregatable (snd (hd fc)), field_aggs = Some []\<rparr>"
      unfolding e' in_fieldOfCaps by blast
    have "field_id f = k'" "field_type f = t"
      "field_aggregatable f = cap_aggregatable (snd (hd fc))"
      by (simp_all add: fr)
    with e t show ?thesis
      unfolding mem [symmetric] e' by (intro exI [of _ fc]) simp
  qed
  have C: "distinct (map field_id ?flds)"
    using distinct_created [OF assms(2)]
    by (simp add: fieldsOfResponse_def distinct_array_sort)
  show ?thesis
    apply (rule exI [of _ ?flds])
    apply (rule conjI, rule run)
    apply (rule conjI, rule allI, rule A)
    apply (rule conjI, rule ballI, erule B)
    apply (rule C)
    done
qed

theorem C9_supported_fields_witness:
  "callFieldCaps mixedEnv ''idx'' = Inr (Some mixedReport) \<and>
   distinct (map fst mixedReport) \<and>
   createFields mixedEnv ''idx'' [] =
     ([FieldCapsCall ''idx''],
      Inr [\<lparr>field_id = ''age'', field_name = ''age'', field_type = ''long'',
            field_aggregatable = False, field_aggs = Some []\<rparr>,
           \<lparr>field_id = ''name'', field_name = ''name'', field_type = ''keyword'',
            field_aggregatable = True, field_aggs = Some []\<rparr>])"
proof -
  have h1: "callFieldCaps mixedEnv ''idx'' = Inr (Some mixedReport)"
    by (simp add: mixedEnv_def scenarioEnv_def)
  have h2: "distinct (map fst mixedReport)"
    by (simp add: mixedReport_def)
  have run: "createFields mixedEnv ''idx'' [] =
     ([FieldCapsCall ''idx''],
      Inr [\<lparr>field_id = ''age'', field_name = ''age'', field_type = ''long'',
            field_aggregatable = False, field_aggs = Some []\<rparr>,
           \<lparr>field_id = ''name'', field_name = ''name'', field_type = ''keyword'',
            field_aggregatable = True, field_aggs = Some []\<rparr>])"
    by (simp add: createFields_def loadFieldCaps_def fieldsOfResponse_def fieldOfCaps_def
        supportedTypes_def array_sort_def codeCompare_def mixedEnv_def mixedReport_def
        scenarioEnv_def es_constants)
  from C9_supported_fields [OF h1 h2, of "[]"] h1 h2 run show ?thesis by simp
qed

subsection \<open>C10: the aggregatable flag is not consulted\<close>

text \<open>
  C10: when two capability reports differ only in the \<^verbatim>\<open>aggregatable\<close> flags of their
  fields (the same field names and the same type variants in the same order), the two
  invocations ask the same collaborators and return the same aggregations with the same
  field references, and fields that agree in everything but the copied \<^verbatim>\<open>aggregatable\<close>
  values: the same identifiers, types and aggregation references. In particular, in a
  non-rollup invocation a field reported with \<^verbatim>\<open>aggregatable\<close> false and the type double,
  float or long is returned, and is linked to every metric aggregation of the catalog
  but count.
\<close>

theorem C10_aggregatable_not_consulted:
  assumes "rel_option sameTypes r1 r2"
    and "getData (env\<lparr>callFieldCaps := \<lambda>p. Inr r1\<rparr>) indexPattern isRollup = (log, Inr caps1)"
  shows "(\<exists>caps2. getData (env\<lparr>callFieldCaps := \<lambda>p. Inr r2\<rparr>) indexPattern isRollup = (log, Inr caps2) \<and>
            caps_aggs caps2 = caps_aggs caps1 \<and>
            map eraseAggregatable (caps_fields caps2) = map eraseAggregatable (caps_fields caps1)) \<and>
         (\<not> isRollup \<and> r1 = Some report \<and> (k, (v, c) # vs) \<in> set report \<and>
          (cap_type c = Some ''double'' \<or> cap_type c = Some ''float'' \<or> cap_type c = Some ''long'') \<and>
          \<not> cap_aggregatable c \<and>
          j < length (aggregations env) \<and> agg_type (aggregations env ! j) = METRIC_AGG_TYPE \<and>
          agg_dslName (aggregations env ! j) \<noteq> ''count'' \<longrightarrow>
          (\<exists>f\<in>set (caps_fields caps1). field_id f = k \<and> \<not> field_aggregatable f \<and>
             (\<exists>js. field_aggs f = Some js \<and> j \<in> set js)))"
proof (rule conjI)
  let ?lc = "localeCompare env"
  have er: "map eraseAggregatable (fieldsOfResponse ?lc r2) =
            map eraseAggregatable (fieldsOfResponse ?lc r1)"
    using erase_fieldsOfResponse [OF assms(1)] by simp
  note eq = combine_modulo_aggregatable [OF er]
  show "\<exists>caps2. getData (env\<lparr>callFieldCaps := \<lambda>p. Inr r2\<rparr>) indexPattern isRollup = (log, Inr caps2) \<and>
            caps_aggs caps2 = caps_aggs caps1 \<and>
            map eraseAggregatable (caps_fields caps2) = map eraseAggregatable (caps_fields caps1)"
    using assms(2) unfolding getData_with_response
    by (auto simp: eq split: if_splits sum.splits option.splits)
next
  show "\<not> isRollup \<and> r1 = Some report \<and> (k, (v, c) # vs) \<in> set report \<and>
          (cap_type c = Some ''double'' \<or> cap_type c = Some ''float'' \<or> cap_type c = Some ''long'') \<and>
          \<not> cap_aggregatable c \<and>
          j < length (aggregations env) \<and> agg_type (aggregations env ! j) = METRIC_AGG_TYPE \<and>
          agg_dslName (aggregations env ! j) \<noteq> ''count'' \<longrightarrow>
          (\<exists>f\<in>set (caps_fields caps1). field_id f = k \<and> \<not> field_aggregatable f \<and>
             (\<exists>js. field_aggs f = Some js \<and> j \<in> set js))"
  proof (intro impI, elim conjE)
    assume nr: "\<not> isRollup" and r1: "r1 = Some report" and mem: "(k, (v, c) # vs) \<in> set report"
      and ty: "cap_type c = Some ''double'' \<or> cap_type c = Some ''float'' \<or> cap_type c = Some ''long''"
      and na: "\<not> cap_aggregatable c"
      and j: "j < length (aggregations env)" and m: "agg_type (aggregations env ! j) = METRIC_AGG_TYPE"
      and d: "agg_dslName (aggregations env ! j) \<noteq> ''count''"
    let ?fs = "fieldsOfResponse (localeCompare env) (Some report)"
    from assms(2) nr r1 have caps1: "caps1 = combineFieldsAndAggs ?fs (aggregations env) []"
      unfolding getData_with_response by simp
    from ty obtain t where t: "cap_type c = Some t"
      and t3: "t = ''double'' \<or> t = ''float'' \<or> t = ''long''" by blast
    from t3 have ts: "t \<in> set supportedTypes" by (auto simp: supportedTypes_def es_constants)
    let ?f0 = "\<lparr>field_id = k, field_name = k, field_type = t,
                field_aggregatable = cap_aggregatable c, field_aggs = Some []\<rparr>"
    from t ts have "?f0 \<in> set (fieldOfCaps (k, (v, c) # vs))" by (simp add: in_fieldOfCaps)
    with mem have "?f0 \<in> set ?fs" unfolding set_fieldsOfResponse by blast
    then obtain i where i: "i < length ?fs" and fi: "?fs ! i = ?f0"
      by (auto simp: in_set_conv_nth)
    have cp: "compatible (?fs ! i) (aggregations env ! j)"
      using t3 m d by (intro compatible_numerical) (simp_all add: fi)
    have "\<exists>f\<in>set (caps_fields (combineFieldsAndAggs ?fs (aggregations env) [])).
           field_id f = field_id (?fs ! i) \<and> field_aggregatable f = field_aggregatable (?fs ! i) \<and>
           (\<exists>js. field_aggs f = Some js \<and> j \<in> set js)"
      by (rule linked_field_retained [OF i _ j]) (simp_all add: fi linked_def cp [unfolded fi])
    then show "\<exists>f\<in>set (caps_fields caps1). field_id f = k \<and> \<not> field_aggregatable f \<and>
             (\<exists>js. field_aggs f = Some js \<and> j \<in> set js)"
      using na by (simp add: caps1 fi)
  qed
qed

theorem C10_aggregatable_not_consulted_witness:
  "rel_option sameTypes (Some nonAggregatableReport) (Some scenarioReport) \<and>
   getData (scenarioEnv\<lparr>callFieldCaps := \<lambda>p. Inr (Some nonAggregatableReport)\<rparr>) ''idx'' False =
     ([FieldCapsCall ''idx''],
      Inr (scenarioCaps\<lparr>caps_fields :=
             [(scenarioFields ! 0)\<lparr>field_aggregatable := False\<rparr>, scenarioFields ! 1]\<rparr>)) \<and>
   getData (scenarioEnv\<lparr>callFieldCaps := \<lambda>p. Inr (Some scenarioReport)\<rparr>) ''idx'' False =
     ([FieldCapsCall ''idx''], Inr scenarioCaps)"
proof -
  have h1: "rel_option sameTypes (Some nonAggregatableReport) (Some scenarioReport)"
    by (simp add: sameTypes_def nonAggregatableReport_def scenarioReport_def)
  have h2: "getData (scenarioEnv\<lparr>callFieldCaps := \<lambda>p. Inr (Some nonAggregatableReport)\<rparr>) ''idx'' False =
     ([FieldCapsCall ''idx''],
      Inr (scenarioCaps\<lparr>caps_fields :=
             [(scenarioFields ! 0)\<lparr>field_aggregatable := False\<rparr>, scenarioFields ! 1]\<rparr>))"
    by (simp add: service_defs scenario_defs scenarioCaps_def scenarioFields_def
        nonAggregatableReport_def es_constants Let_def)
  have h3: "getData (scenarioEnv\<lparr>callFieldCaps := \<lambda>p. Inr (Some scenarioReport)\<rparr>) ''idx'' False =
     ([FieldCapsCall ''idx''], Inr scenarioCaps)"
    using scenario_run by (simp add: scenarioEnv_def)
  from C10_aggregatable_not_consulted [OF h1 h2] h1 h2 h3 show ?thesis by simp
qed

end
